theory Spec2Isabelle
  imports Main "HOL-Library.Word"
begin

section \<open>The kvstore-backed identity allocator backend\<close>

text \<open>
  A shallow embedding of \<open>pkg/allocator\<close>'s kvstore backend (Go): the master keys
  \<open>basePath/id/ID\<close>, the slave keys \<open>basePath/value/key/node\<close>, the lock keys
  \<open>basePath/locks/...\<close>, the lookups, the reconciliation helpers, the two garbage
  collectors and the watcher. Go strings are byte sequences, so they are \<open>string\<close>
  (\<open>char list\<close>) and \<open>length\<close> is Go's \<open>len\<close>.
\<close>

subsection \<open>Go standard library: strings, strconv, path\<close>

text \<open>\<open>strings.HasPrefix(s, prefix)\<close>.\<close>

definition strings_HasPrefix :: "string \<Rightarrow> string \<Rightarrow> bool" where
  "strings_HasPrefix s p = (take (length p) s = p)"

text \<open>\<open>strings.TrimPrefix(s, prefix)\<close>: \<open>s\<close> without the leading \<open>prefix\<close>, or \<open>s\<close> itself.\<close>

definition strings_TrimPrefix :: "string \<Rightarrow> string \<Rightarrow> string" where
  "strings_TrimPrefix s p = (if strings_HasPrefix s p then drop (length p) s else s)"

text \<open>
  \<open>strings.LastIndex(s, "/")\<close> for the one-byte separator the source passes: the index
  of the last occurrence of the byte, or \<open>-1\<close> when there is none.
\<close>

fun strings_LastIndex :: "string \<Rightarrow> char \<Rightarrow> int" where
  "strings_LastIndex [] c = -1"
| "strings_LastIndex (x # xs) c =
     (let r = strings_LastIndex xs c
      in if r \<noteq> -1 then r + 1 else if x = c then 0 else -1)"

text \<open>
  \<open>strings.Split(s, "/")\<close> for a one-byte separator: the pieces between the
  separators; there is always at least one piece.
\<close>

fun strings_Split :: "string \<Rightarrow> char \<Rightarrow> string list" where
  "strings_Split [] c = [[]]"
| "strings_Split (x # xs) c =
     (if x = c then [] # strings_Split xs c
      else (case strings_Split xs c of
              [] \<Rightarrow> [[x]]
            | p # ps \<Rightarrow> (x # p) # ps))"

definition isDigit :: "char \<Rightarrow> bool" where
  "isDigit c = (48 \<le> (of_char c :: nat) \<and> (of_char c :: nat) \<le> 57)"

text \<open>The value of a string of decimal digits, most significant digit first.\<close>

fun decimalValue :: "int \<Rightarrow> string \<Rightarrow> int" where
  "decimalValue acc [] = acc"
| "decimalValue acc (c # cs) = decimalValue (acc * 10 + (of_char c - 48)) cs"

text \<open>
  \<open>strconv.ParseUint(s, 10, 64)\<close>: \<open>None\<close> is a non-nil error (empty input, a byte
  that is not a decimal digit, or a value above \<open>2^64 - 1\<close>).
\<close>

definition ParseUint :: "string \<Rightarrow> 64 word option" where
  "ParseUint s =
     (if s = [] \<or> \<not> list_all isDigit s then None
      else if decimalValue 0 s < 2 ^ 64 then Some (word_of_int (decimalValue 0 s))
      else None)"




text \<open>
  \<open>path.Clean\<close>, on the elements between the slashes: empty elements and \<open>.\<close> are
  dropped, \<open>..\<close> removes the element before it when there is one, is dropped at the
  root of a rooted path and is kept at the front of a relative one. The stack holds the
  elements kept so far, last first.
\<close>

fun cleanElems :: "bool \<Rightarrow> string list \<Rightarrow> string list \<Rightarrow> string list" where
  "cleanElems rooted stack [] = rev stack"
| "cleanElems rooted stack (e # es) =
     (if e = [] \<or> e = ''.'' then cleanElems rooted stack es
      else if e = ''..'' then
        (case stack of
           [] \<Rightarrow> if rooted then cleanElems rooted [] es else cleanElems rooted [''..''] es
         | t # ts \<Rightarrow>
             if t = ''..'' then cleanElems rooted (''..'' # t # ts) es
             else cleanElems rooted ts es)
      else cleanElems rooted (e # stack) es)"

fun joinWith :: "char \<Rightarrow> string list \<Rightarrow> string" where
  "joinWith c [] = []"
| "joinWith c [e] = e"
| "joinWith c (e # es) = e @ c # joinWith c es"

definition path_Clean :: "string \<Rightarrow> string" where
  "path_Clean p =
     (if p = [] then ''.''
      else
        (let rooted = (hd p = CHR ''/'');
             out = joinWith (CHR ''/'') (cleanElems rooted [] (strings_Split p (CHR ''/'')))
         in if rooted then CHR ''/'' # out
            else if out = [] then ''.'' else out))"

text \<open>
  \<open>path.Join(elem...)\<close>: the non-empty elements joined by slashes, then cleaned; the
  empty string when every element is empty.
\<close>

definition path_Join :: "string list \<Rightarrow> string" where
  "path_Join elems =
     (if concat elems = [] then []
      else path_Clean (joinWith (CHR ''/'') (filter (\<lambda>e. e \<noteq> []) elems)))"

subsection \<open>Data\<close>

text \<open>\<open>idpool.ID\<close> is a \<open>uint64\<close>.\<close>

type_synonym ID = "64 word"

text \<open>
  Modelled from the spec: \<open>idpool.NoID\<close>, the "no identity" result of \<open>Get\<close> and
  \<open>keyToID\<close>, is declared in \<open>pkg/idpool\<close>, which is not among the sources; it is the
  zero ID.
\<close>

definition NoID :: ID where
  "NoID = 0"


text \<open>
  \<open>kvstore.Value\<close>: the bytes stored under a key, the revision of its last
  modification and the lease it is bound to.
\<close>

record Value =
  Data :: string
  ModRevision :: "64 word"
  LeaseID :: "64 word"

text \<open>
  \<open>kvstore.KeyValuePairs\<close> is a Go map from key to \<open>Value\<close>. A listing is the
  association list of its entries in the order in which a \<open>range\<close> statement visits
  them, which Go leaves unspecified.
\<close>

type_synonym KeyValuePairs = "(string \<times> Value) list"

text \<open>Go errors: one produced by the store (or the rate limiter), or one built by the backend.\<close>

datatype error = StoreError string | Errorf string "error option"

text \<open>A Go call either returns or panics.\<close>

datatype 'a outcome = Panic | Return 'a

text \<open>The fields of \<open>kvstoreBackend\<close> that are strings.\<close>

record kvstoreBackend =
  basePrefix :: string
  idPrefix :: string
  valuePrefix :: string
  lockPrefix :: string
  suffix :: string

text \<open>\<open>NewKVStoreBackend\<close>: the three prefixes are derived from the base path.\<close>

definition NewKVStoreBackend :: "string \<Rightarrow> string \<Rightarrow> kvstoreBackend" where
  "NewKVStoreBackend BasePath Suffix =
     \<lparr> basePrefix = BasePath,
       idPrefix = path_Join [BasePath, ''id''],
       valuePrefix = path_Join [BasePath, ''value''],
       lockPrefix = path_Join [BasePath, ''locks''],
       suffix = Suffix \<rparr>"

subsection \<open>prefixMatchesKey and keyToID\<close>

definition prefixMatchesKey :: "string \<Rightarrow> string \<Rightarrow> bool" where
  "prefixMatchesKey prefix key =
     (let lastSlash = strings_LastIndex key (CHR ''/'')
      in int (length prefix) = lastSlash)"

text \<open>
  The reading of \<open>PrefixMatchesKey\<close> in the specification: the key starts with the
  prefix, the byte at position \<open>len(prefix)\<close> is a slash, and no slash follows it.
\<close>

definition spec_PrefixMatchesKey :: "string \<Rightarrow> string \<Rightarrow> bool" where
  "spec_PrefixMatchesKey prefix key =
     (take (length prefix) key = prefix \<and> length prefix < length key \<and>
      key ! length prefix = CHR ''/'' \<and>
      CHR ''/'' \<notin> set (drop (Suc (length prefix)) key))"

text \<open>
  \<open>keyToID\<close> returns \<open>(id, err)\<close>. \<open>suffix[0]\<close> is read without a length check: on
  an empty suffix Go panics with an index out of range.
\<close>

definition keyToID :: "kvstoreBackend \<Rightarrow> string \<Rightarrow> (ID \<times> error option) outcome" where
  "keyToID k key =
     (if \<not> strings_HasPrefix key (idPrefix k)
      then Return (NoID, Some (Errorf ''Found invalid key outside of prefix'' None))
      else
        (let suffix = strings_TrimPrefix key (idPrefix k)
         in case suffix of
              [] \<Rightarrow> Panic
            | c # rest \<Rightarrow>
                (let suffix' = (if c = CHR ''/'' then rest else suffix)
                 in case ParseUint suffix' of
                      None \<Rightarrow> Return (NoID, Some (Errorf ''Cannot parse key suffix'' None))
                    | Some idParsed \<Rightarrow> Return (idParsed, None))))"

subsection \<open>The kv-store the backend runs on\<close>

text \<open>
  Modelled from the spec: \<open>kvstore.BackendOperations\<close>, \<open>kvstore.LockPath\<close> and the
  lock's \<open>Unlock\<close> (section 4.A, the KV-store interface) are declared in
  \<open>pkg/kvstore\<close>, which is not among the sources. The backend only calls them, so
  the store is a parameter: every operation is a function of the store's state \<open>'s\<close>
  that returns its result and the next state. Nothing is assumed about these functions:
  a store that fails, or whose content changes between two calls because other nodes
  write to it, is an instance. \<open>'l\<close> is the type of lock handles. The boolean of
  \<open>CreateOnly\<close> and \<open>UpdateIfDifferent\<close> is the lease flag; \<open>Inl\<close> is a non-nil
  error, \<open>Some\<close> a non-nil error where the call returns an error only.
\<close>

record ('s, 'l) BackendOperations =
  ListPrefix :: "string \<Rightarrow> 's \<Rightarrow> (error + KeyValuePairs) \<times> 's"
  ListPrefixIfLocked :: "string \<Rightarrow> 'l \<Rightarrow> 's \<Rightarrow> (error + KeyValuePairs) \<times> 's"
  CreateOnly :: "string \<Rightarrow> string \<Rightarrow> bool \<Rightarrow> 's \<Rightarrow> (error + bool) \<times> 's"
  CreateOnlyIfLocked :: "string \<Rightarrow> string \<Rightarrow> bool \<Rightarrow> 'l \<Rightarrow> 's \<Rightarrow> (error + bool) \<times> 's"
  UpdateIfDifferent :: "string \<Rightarrow> string \<Rightarrow> bool \<Rightarrow> 's \<Rightarrow> (error + bool) \<times> 's"
  UpdateIfDifferentIfLocked :: "string \<Rightarrow> string \<Rightarrow> bool \<Rightarrow> 'l \<Rightarrow> 's \<Rightarrow> (error + bool) \<times> 's"
  Delete :: "string \<Rightarrow> 's \<Rightarrow> error option \<times> 's"
  DeleteIfLocked :: "string \<Rightarrow> 'l \<Rightarrow> 's \<Rightarrow> error option \<times> 's"
  LockPath :: "string \<Rightarrow> 's \<Rightarrow> (error + 'l) \<times> 's"
  Unlock :: "'l \<Rightarrow> 's \<Rightarrow> 's"

text \<open>
  \<open>rate.Limiter.Wait\<close>: blocks, and fails when the context is cancelled. It is a
  parameter of the same kind.
\<close>

type_synonym 's Limiter = "'s \<Rightarrow> error option \<times> 's"

text \<open>\<open>allocator.GCStats\<close>.\<close>

record GCStats =
  Alive :: int
  Deleted :: int

text \<open>
  An \<open>allocator.AllocatorKey\<close> is represented by its \<open>GetKey()\<close> string, and
  \<open>PutKey(s)\<close> by \<open>s\<close>; a nil key is \<open>None\<close>.
\<close>

type_synonym AllocatorKey = string

subsection \<open>Locks and lookups\<close>

definition lockPath ::
  "kvstoreBackend \<Rightarrow> ('s, 'l) BackendOperations \<Rightarrow> string \<Rightarrow> 's \<Rightarrow> (error + 'l) \<times> 's" where
  "lockPath k b key s =
     (let suffix = strings_TrimPrefix key (basePrefix k)
      in LockPath b (path_Join [lockPrefix k, suffix]) s)"

text \<open>
  The loop of \<open>Get\<close> and \<open>GetIfLocked\<close> over the listed pairs: the first pair, in
  the order of the iteration, whose key matches the prefix and whose data parses.
\<close>

fun Get_loop :: "string \<Rightarrow> KeyValuePairs \<Rightarrow> ID" where
  "Get_loop prefix [] = NoID"
| "Get_loop prefix ((k, v) # pairs) =
     (if prefixMatchesKey prefix k then
        (case ParseUint (Data v) of
           Some ident \<Rightarrow> ident
         | None \<Rightarrow> Get_loop prefix pairs)
      else Get_loop prefix pairs)"

definition Get ::
  "kvstoreBackend \<Rightarrow> ('s, 'l) BackendOperations \<Rightarrow> AllocatorKey \<Rightarrow> 's
     \<Rightarrow> (ID \<times> error option) \<times> 's" where
  "Get k b key s =
     (let prefix = path_Join [valuePrefix k, key]
      in case ListPrefix b prefix s of
           (Inl err, s') \<Rightarrow> ((0, Some err), s')
         | (Inr pairs, s') \<Rightarrow> ((Get_loop prefix pairs, None), s'))"

definition GetIfLocked ::
  "kvstoreBackend \<Rightarrow> ('s, 'l) BackendOperations \<Rightarrow> AllocatorKey \<Rightarrow> 'l \<Rightarrow> 's
     \<Rightarrow> (ID \<times> error option) \<times> 's" where
  "GetIfLocked k b key lock s =
     (let prefix = path_Join [valuePrefix k, key]
      in case ListPrefixIfLocked b prefix lock s of
           (Inl err, s') \<Rightarrow> ((0, Some err), s')
         | (Inr pairs, s') \<Rightarrow> ((Get_loop prefix pairs, None), s'))"

subsection \<open>UpdateKey and Release\<close>




subsection \<open>The lock garbage collector\<close>

text \<open>
  One iteration of the loop of \<open>RunLocksGC\<close> over the listed lock keys. The state of
  the loop is the store and the map \<open>staleKeys\<close> built so far.
\<close>

definition RunLocksGC_body ::
  "('s, 'l) BackendOperations \<Rightarrow> (string \<rightharpoonup> Value) \<Rightarrow> string \<times> Value
     \<Rightarrow> 's \<times> (string \<rightharpoonup> Value) \<Rightarrow> 's \<times> (string \<rightharpoonup> Value)" where
  "RunLocksGC_body b staleKeysPrevRound kv st =
     (case (kv, st) of ((key, v), (s, staleKeys)) \<Rightarrow>
        (let mark = \<lparr> Data = [], ModRevision = ModRevision v, LeaseID = LeaseID v \<rparr>
         in case staleKeysPrevRound key of
              Some modRev \<Rightarrow>
                if ModRevision modRev = ModRevision v \<and> LeaseID modRev = LeaseID v then
                  (case Delete b key s of
                     (None, s') \<Rightarrow> (s', staleKeys)
                   | (Some err, s') \<Rightarrow> (s', staleKeys(key \<mapsto> mark)))
                else (s, staleKeys(key \<mapsto> mark))
            | None \<Rightarrow> (s, staleKeys(key \<mapsto> mark))))"

fun RunLocksGC_loop ::
  "('s, 'l) BackendOperations \<Rightarrow> (string \<rightharpoonup> Value) \<Rightarrow> KeyValuePairs
     \<Rightarrow> 's \<times> (string \<rightharpoonup> Value) \<Rightarrow> 's \<times> (string \<rightharpoonup> Value)" where
  "RunLocksGC_loop b staleKeysPrevRound [] st = st"
| "RunLocksGC_loop b staleKeysPrevRound (kv # allocated) st =
     RunLocksGC_loop b staleKeysPrevRound allocated (RunLocksGC_body b staleKeysPrevRound kv st)"

definition RunLocksGC ::
  "kvstoreBackend \<Rightarrow> ('s, 'l) BackendOperations \<Rightarrow> (string \<rightharpoonup> Value) \<Rightarrow> 's
     \<Rightarrow> (error + (string \<rightharpoonup> Value)) \<times> 's" where
  "RunLocksGC k b staleKeysPrevRound s =
     (case ListPrefix b (lockPrefix k) s of
        (Inl err, s1) \<Rightarrow> (Inl (Errorf ''list failed'' (Some err)), s1)
      | (Inr allocated, s1) \<Rightarrow>
          (case RunLocksGC_loop b staleKeysPrevRound allocated (s1, Map.empty) of
             (s2, staleKeys) \<Rightarrow> (Inr staleKeys, s2)))"

subsection \<open>The identity garbage collector\<close>

text \<open>
  One iteration of the loop of \<open>RunGC\<close> over the listed master keys. The state of the
  loop is the store, the map \<open>staleKeys\<close> and the counter \<open>deletedEntries\<close>; the
  first component of the result is the error with which \<open>RunGC\<close> returns from inside
  the loop, \<open>None\<close> when the loop goes on.
\<close>

definition RunGC_body ::
  "kvstoreBackend \<Rightarrow> ('s, 'l) BackendOperations \<Rightarrow> 's Limiter \<Rightarrow> (string \<rightharpoonup> 64 word)
     \<Rightarrow> ID \<Rightarrow> ID \<Rightarrow> string \<times> Value \<Rightarrow> 's \<times> (string \<rightharpoonup> 64 word) \<times> int
     \<Rightarrow> error option \<times> 's \<times> (string \<rightharpoonup> 64 word) \<times> int" where
  "RunGC_body k b rateLimit staleKeysPrevRound minID maxID kv st =
     (case (kv, st) of ((key, v), (s, staleKeys, deletedEntries)) \<Rightarrow>
        (let items = strings_Split key (CHR ''/'')
         in if length items = 0 then (None, s, staleKeys, deletedEntries)
            else
              (case ParseUint (last items) of
                 None \<Rightarrow> (None, s, staleKeys, deletedEntries)
               | Some identityID \<Rightarrow>
                   if identityID < minID \<or> identityID > maxID
                   then (None, s, staleKeys, deletedEntries)
                   else
                     (case lockPath k b key s of
                        (Inl err, s1) \<Rightarrow> (None, s1, staleKeys, deletedEntries)
                      | (Inr lock, s1) \<Rightarrow>
                          (let valueKeyPrefix = path_Join [valuePrefix k, Data v]
                           in case ListPrefixIfLocked b valueKeyPrefix lock s1 of
                                (Inl err, s2) \<Rightarrow>
                                  (None, Unlock b lock s2, staleKeys, deletedEntries)
                              | (Inr pairs, s2) \<Rightarrow>
                                  (let hasUsers =
                                         list_ex (\<lambda>p. prefixMatchesKey valueKeyPrefix (fst p)) pairs;
                                       (s3, staleKeys', deletedEntries', deleted) =
                                         (if \<not> hasUsers then
                                            (case staleKeysPrevRound key of
                                               Some modRev \<Rightarrow>
                                                 if modRev = ModRevision v then
                                                   (case DeleteIfLocked b key lock s2 of
                                                      (Some err, s') \<Rightarrow>
                                                        (s', staleKeys, deletedEntries, True)
                                                    | (None, s') \<Rightarrow>
                                                        (s', staleKeys, deletedEntries + 1, True))
                                                 else (s2, staleKeys, deletedEntries, False)
                                             | None \<Rightarrow>
                                                 (s2, staleKeys(key \<mapsto> ModRevision v),
                                                  deletedEntries, False))
                                          else (s2, staleKeys, deletedEntries, False));
                                       s4 = Unlock b lock s3
                                   in if deleted then
                                        (case rateLimit s4 of
                                           (Some err, s5) \<Rightarrow>
                                             (Some err, s5, staleKeys', deletedEntries')
                                         | (None, s5) \<Rightarrow>
                                             (None, s5, staleKeys', deletedEntries'))
                                      else (None, s4, staleKeys', deletedEntries')))))))"

fun RunGC_loop ::
  "kvstoreBackend \<Rightarrow> ('s, 'l) BackendOperations \<Rightarrow> 's Limiter \<Rightarrow> (string \<rightharpoonup> 64 word)
     \<Rightarrow> ID \<Rightarrow> ID \<Rightarrow> KeyValuePairs \<Rightarrow> 's \<times> (string \<rightharpoonup> 64 word) \<times> int
     \<Rightarrow> error option \<times> 's \<times> (string \<rightharpoonup> 64 word) \<times> int" where
  "RunGC_loop k b rateLimit staleKeysPrevRound minID maxID [] st = (None, st)"
| "RunGC_loop k b rateLimit staleKeysPrevRound minID maxID (kv # allocated) st =
     (case RunGC_body k b rateLimit staleKeysPrevRound minID maxID kv st of
        (Some err, st') \<Rightarrow> (Some err, st')
      | (None, st') \<Rightarrow> RunGC_loop k b rateLimit staleKeysPrevRound minID maxID allocated st')"

text \<open>
  \<open>RunGC\<close>. \<open>len(allocated)\<close> is the number of listed keys. On an error the Go
  function returns nil for the map and the statistics.
\<close>

definition RunGC ::
  "kvstoreBackend \<Rightarrow> ('s, 'l) BackendOperations \<Rightarrow> 's Limiter \<Rightarrow> (string \<rightharpoonup> 64 word)
     \<Rightarrow> ID \<Rightarrow> ID \<Rightarrow> 's \<Rightarrow> (error + (string \<rightharpoonup> 64 word) \<times> GCStats) \<times> 's" where
  "RunGC k b rateLimit staleKeysPrevRound minID maxID s =
     (case ListPrefix b (idPrefix k) s of
        (Inl err, s1) \<Rightarrow> (Inl (Errorf ''list failed'' (Some err)), s1)
      | (Inr allocated, s1) \<Rightarrow>
          (let totalEntries = int (length allocated)
           in case RunGC_loop k b rateLimit staleKeysPrevRound minID maxID allocated
                     (s1, Map.empty, 0) of
                (Some err, s2, staleKeys, deletedEntries) \<Rightarrow> (Inl err, s2)
              | (None, s2, staleKeys, deletedEntries) \<Rightarrow>
                  (Inr (staleKeys,
                        \<lparr> Alive = totalEntries - deletedEntries, Deleted = deletedEntries \<rparr>),
                   s2)))"

subsection \<open>Listing and watching the master keys\<close>

text \<open>
  \<open>ListIDs\<close>: the loop over the listed keys. A panic of \<open>keyToID\<close> is a panic of
  the loop.
\<close>

fun ListIDs_loop :: "kvstoreBackend \<Rightarrow> KeyValuePairs \<Rightarrow> ID list \<Rightarrow> ID list outcome" where
  "ListIDs_loop k [] identityIDs = Return identityIDs"
| "ListIDs_loop k ((key, v) # identities) identityIDs =
     (case keyToID k key of
        Panic \<Rightarrow> Panic
      | Return (ident, Some err) \<Rightarrow> ListIDs_loop k identities identityIDs
      | Return (ident, None) \<Rightarrow> ListIDs_loop k identities (identityIDs @ [ident]))"

definition ListIDs ::
  "kvstoreBackend \<Rightarrow> ('s, 'l) BackendOperations \<Rightarrow> 's
     \<Rightarrow> (ID list \<times> error option) outcome \<times> 's" where
  "ListIDs k b s =
     (case ListPrefix b (idPrefix k) s of
        (Inl err, s') \<Rightarrow> (Return ([], Some err), s')
      | (Inr identities, s') \<Rightarrow>
          (case ListIDs_loop k identities [] of
             Panic \<Rightarrow> (Panic, s')
           | Return identityIDs \<Rightarrow> (Return (identityIDs, None), s')))"

text \<open>
  Modelled from the spec: \<open>kvstore.KeyValueEvent\<close> and its event types (section 6, the
  watcher wire contract) are declared in \<open>pkg/kvstore\<close>, which is not among the
  sources. Only the fields that \<open>ListAndWatch\<close> reads are kept.
\<close>

datatype EventType = EventTypeCreate | EventTypeModify | EventTypeDelete | EventTypeListDone

record KeyValueEvent =
  Typ :: EventType
  Key :: string
  Value :: string




subsection \<open>Recording the calls to the store\<close>

text \<open>A call to the store, with what it returned.\<close>

datatype 'l call =
    CallListPrefix string "error + KeyValuePairs"
  | CallListPrefixIfLocked string 'l "error + KeyValuePairs"
  | CallCreateOnly string string bool "error + bool"
  | CallCreateOnlyIfLocked string string bool 'l "error + bool"
  | CallUpdateIfDifferent string string bool "error + bool"
  | CallUpdateIfDifferentIfLocked string string bool 'l "error + bool"
  | CallDelete string "error option"
  | CallDeleteIfLocked string 'l "error option"
  | CallLockPath string "error + 'l"
  | CallUnlock 'l
  | CallWait "error option"

text \<open>
  The store \<open>b\<close> with a log: every operation does what it does in \<open>b\<close> and appends
  its call to the log. The backend functions are polymorphic in the store, so running
  them on \<open>logged b\<close> shows which calls they make, in which order.
\<close>

definition record1 ::
  "('s \<Rightarrow> 'r \<times> 's) \<Rightarrow> ('r \<Rightarrow> 'l call) \<Rightarrow> 's \<times> 'l call list \<Rightarrow> 'r \<times> 's \<times> 'l call list" where
  "record1 f c st =
     (case st of (s, lg) \<Rightarrow> (case f s of (r, s') \<Rightarrow> (r, s', lg @ [c r])))"

definition logged ::
  "('s, 'l) BackendOperations \<Rightarrow> ('s \<times> 'l call list, 'l) BackendOperations" where
  "logged b =
     \<lparr> ListPrefix = (\<lambda>p. record1 (ListPrefix b p) (CallListPrefix p)),
       ListPrefixIfLocked =
         (\<lambda>p l. record1 (ListPrefixIfLocked b p l) (CallListPrefixIfLocked p l)),
       CreateOnly = (\<lambda>key v lease. record1 (CreateOnly b key v lease) (CallCreateOnly key v lease)),
       CreateOnlyIfLocked =
         (\<lambda>key v lease l.
            record1 (CreateOnlyIfLocked b key v lease l) (CallCreateOnlyIfLocked key v lease l)),
       UpdateIfDifferent =
         (\<lambda>key v lease.
            record1 (UpdateIfDifferent b key v lease) (CallUpdateIfDifferent key v lease)),
       UpdateIfDifferentIfLocked =
         (\<lambda>key v lease l.
            record1 (UpdateIfDifferentIfLocked b key v lease l)
              (CallUpdateIfDifferentIfLocked key v lease l)),
       Delete = (\<lambda>key. record1 (Delete b key) (CallDelete key)),
       DeleteIfLocked = (\<lambda>key l. record1 (DeleteIfLocked b key l) (CallDeleteIfLocked key l)),
       LockPath = (\<lambda>p. record1 (LockPath b p) (CallLockPath p)),
       Unlock = (\<lambda>l st. case st of (s, lg) \<Rightarrow> (Unlock b l s, lg @ [CallUnlock l])) \<rparr>"

definition loggedWait :: "'s Limiter \<Rightarrow> ('s \<times> 'l call list) Limiter" where
  "loggedWait rateLimit = record1 rateLimit CallWait"

subsection \<open>A store in memory\<close>

text \<open>
  Modelled from the spec: an instance of the KV-store interface of section 4.A that
  never fails and that nobody else writes to. Its state is the list of the entries and
  the revision counter; a lock handle is the path that was locked. It serves to run the
  backend on concrete inputs.
\<close>

record memStore =
  entries :: KeyValuePairs
  revision :: "64 word"

definition memPut :: "string \<Rightarrow> string \<Rightarrow> bool \<Rightarrow> memStore \<Rightarrow> memStore" where
  "memPut key v lease s =
     \<lparr> entries = filter (\<lambda>p. fst p \<noteq> key) (entries s) @
         [(key, \<lparr> Data = v, ModRevision = revision s + 1,
                   LeaseID = (if lease then 1 else 0) \<rparr>)],
       revision = revision s + 1 \<rparr>"

definition memList :: "string \<Rightarrow> memStore \<Rightarrow> (error + KeyValuePairs) \<times> memStore" where
  "memList p s = (Inr (filter (\<lambda>e. strings_HasPrefix (fst e) p) (entries s)), s)"

definition memCreateOnly ::
  "string \<Rightarrow> string \<Rightarrow> bool \<Rightarrow> memStore \<Rightarrow> (error + bool) \<times> memStore" where
  "memCreateOnly key v lease s =
     (case map_of (entries s) key of
        Some old \<Rightarrow> (Inr False, s)
      | None \<Rightarrow> (Inr True, memPut key v lease s))"

definition memUpdateIfDifferent ::
  "string \<Rightarrow> string \<Rightarrow> bool \<Rightarrow> memStore \<Rightarrow> (error + bool) \<times> memStore" where
  "memUpdateIfDifferent key v lease s =
     (case map_of (entries s) key of
        Some old \<Rightarrow> if Data old = v then (Inr False, s) else (Inr True, memPut key v lease s)
      | None \<Rightarrow> (Inr True, memPut key v lease s))"

definition memDelete :: "string \<Rightarrow> memStore \<Rightarrow> error option \<times> memStore" where
  "memDelete key s = (None, s\<lparr> entries := filter (\<lambda>p. fst p \<noteq> key) (entries s) \<rparr>)"

definition memBackend :: "(memStore, string) BackendOperations" where
  "memBackend =
     \<lparr> ListPrefix = memList,
       ListPrefixIfLocked = (\<lambda>p l. memList p),
       CreateOnly = memCreateOnly,
       CreateOnlyIfLocked = (\<lambda>key v lease l. memCreateOnly key v lease),
       UpdateIfDifferent = memUpdateIfDifferent,
       UpdateIfDifferentIfLocked = (\<lambda>key v lease l. memUpdateIfDifferent key v lease),
       Delete = memDelete,
       DeleteIfLocked = (\<lambda>key l. memDelete key),
       LockPath = (\<lambda>p s. (Inr p, s)),
       Unlock = (\<lambda>l s. s) \<rparr>"

definition memWait :: "memStore Limiter" where
  "memWait s = (None, s)"

subsection \<open>Concrete inputs\<close>

text \<open>
  A backend with base path \<open>base\<close> on node \<open>n1\<close>, and a store with three master
  keys (identity 300 has no slave key, identity 301 has two, identity 999999 is outside
  the range \<open>[256, 65535]\<close>), the slave keys of \<open>k2\<close> and of the longer key
  \<open>k2;x\<close>, and three lock keys.
\<close>

definition exampleBackend :: kvstoreBackend where
  "exampleBackend = NewKVStoreBackend ''base'' ''n1''"

definition exampleStore :: memStore where
  "exampleStore =
     \<lparr> entries =
         [(''base/id/300'', \<lparr> Data = ''k1'', ModRevision = 7, LeaseID = 0 \<rparr>),
          (''base/id/301'', \<lparr> Data = ''k2'', ModRevision = 8, LeaseID = 0 \<rparr>),
          (''base/id/999999'', \<lparr> Data = ''k3'', ModRevision = 9, LeaseID = 0 \<rparr>),
          (''base/value/k2;x/n1'', \<lparr> Data = ''302'', ModRevision = 10, LeaseID = 1 \<rparr>),
          (''base/value/k2/n1'', \<lparr> Data = ''301'', ModRevision = 11, LeaseID = 1 \<rparr>),
          (''base/value/k2/n2'', \<lparr> Data = ''301'', ModRevision = 12, LeaseID = 2 \<rparr>),
          (''base/locks/a'', \<lparr> Data = ''x'', ModRevision = 3, LeaseID = 5 \<rparr>),
          (''base/locks/b'', \<lparr> Data = ''y'', ModRevision = 4, LeaseID = 6 \<rparr>),
          (''base/locks/c'', \<lparr> Data = ''z'', ModRevision = 13, LeaseID = 9 \<rparr>)],
       revision = 13 \<rparr>"

text \<open>The lock keys seen by a previous round: \<open>a\<close> as it still is, \<open>b\<close> at an older revision.\<close>

definition exampleStaleLocks :: "string \<rightharpoonup> Value" where
  "exampleStaleLocks =
     [''base/locks/a'' \<mapsto> \<lparr> Data = [], ModRevision = 3, LeaseID = 5 \<rparr>,
      ''base/locks/b'' \<mapsto> \<lparr> Data = [], ModRevision = 2, LeaseID = 6 \<rparr>]"

text \<open>
  The master keys seen by a previous round of the identity garbage collector: in
  \<open>examplePrev\<close> all three at their current revisions, in \<open>exampleChangedPrev\<close>
  the key of identity 300 at an older revision.
\<close>

definition examplePrev :: "string \<rightharpoonup> 64 word" where
  "examplePrev = [''base/id/300'' \<mapsto> 7, ''base/id/301'' \<mapsto> 8, ''base/id/999999'' \<mapsto> 9]"

definition exampleChangedPrev :: "string \<rightharpoonup> 64 word" where
  "exampleChangedPrev = [''base/id/300'' \<mapsto> 5]"



section \<open>Properties\<close>

subsection \<open>The position of the last slash\<close>

lemma LastIndex_ge: "- 1 \<le> strings_LastIndex s c"
  by (induction s) (auto simp: Let_def)

lemma LastIndex_none: "strings_LastIndex s c = - 1 \<longleftrightarrow> c \<notin> set s"
proof (induction s)
  case Nil
  show ?case by simp
next
  case (Cons x xs)
  have "strings_LastIndex xs c + 1 \<noteq> - 1"
    using LastIndex_ge [of xs c] by arith
  then show ?case using Cons by (auto simp: Let_def)
qed

lemma LastIndex_eq:
  "strings_LastIndex s c = int n \<longleftrightarrow>
     n < length s \<and> s ! n = c \<and> c \<notin> set (drop (Suc n) s)"
proof (induction s arbitrary: n)
  case Nil
  show ?case by simp
next
  case (Cons x xs)
  show ?case
  proof (cases n)
    case 0
    have "strings_LastIndex xs c \<noteq> - 1 \<Longrightarrow> strings_LastIndex xs c + 1 \<noteq> 0"
      using LastIndex_ge [of xs c] by arith
    then show ?thesis using 0 by (auto simp: Let_def LastIndex_none)
  next
    case (Suc m)
    have "strings_LastIndex xs c + 1 = int (Suc m) \<longleftrightarrow> strings_LastIndex xs c = int m"
      by auto
    then show ?thesis using Suc Cons.IH [of m] by (auto simp: Let_def)
  qed
qed

lemma HasPrefix_append: "strings_HasPrefix key prefix \<longleftrightarrow> (\<exists>rest. key = prefix @ rest)"
  unfolding strings_HasPrefix_def
  by (metis append_eq_conv_conj append_take_drop_id)

text \<open>
  Claim C2, as the code has it: \<open>prefixMatchesKey prefix key\<close> holds exactly when the
  last slash of \<open>key\<close> is at index \<open>len(prefix)\<close>, that is, \<open>key\<close> has a slash at
  that position and none after it; whether \<open>key\<close> starts with \<open>prefix\<close> is not
  looked at. For a key that does start with the prefix (as every key listed under the
  prefix does), this is the case exactly when \<open>key = prefix + "/" + opaque\<close> for an
  \<open>opaque\<close>, possibly empty, without a slash.
\<close>

theorem prefixMatchesKey_last_slash:
  "(prefixMatchesKey prefix key \<longleftrightarrow>
      length prefix < length key \<and> key ! length prefix = CHR ''/'' \<and>
      CHR ''/'' \<notin> set (drop (Suc (length prefix)) key)) \<and>
   (strings_HasPrefix key prefix \<longrightarrow>
      (prefixMatchesKey prefix key \<longleftrightarrow>
         (\<exists>opaque. key = prefix @ CHR ''/'' # opaque \<and> CHR ''/'' \<notin> set opaque)))"
proof (intro conjI impI)
  show char: "prefixMatchesKey prefix key \<longleftrightarrow>
      length prefix < length key \<and> key ! length prefix = CHR ''/'' \<and>
      CHR ''/'' \<notin> set (drop (Suc (length prefix)) key)"
    unfolding prefixMatchesKey_def Let_def using LastIndex_eq [of key "CHR ''/''" "length prefix"]
    by auto
  assume "strings_HasPrefix key prefix"
  then obtain rest where rest: "key = prefix @ rest"
    by (auto simp: HasPrefix_append)
  show "prefixMatchesKey prefix key \<longleftrightarrow>
         (\<exists>opaque. key = prefix @ CHR ''/'' # opaque \<and> CHR ''/'' \<notin> set opaque)"
    unfolding char by (cases rest) (auto simp: rest)
qed

theorem prefixMatchesKey_last_slash_witness:
  "strings_HasPrefix ''abc/d'' ''abc'' \<and> prefixMatchesKey ''abc'' ''abc/d'' \<and>
   (\<exists>opaque. ''abc/d'' = ''abc'' @ CHR ''/'' # opaque \<and> CHR ''/'' \<notin> set opaque)"
proof -
  have h: "strings_HasPrefix ''abc/d'' ''abc''" by code_simp
  have m: "prefixMatchesKey ''abc'' ''abc/d''" by code_simp
  from prefixMatchesKey_last_slash [of "''abc''" "''abc/d''"] h m show ?thesis by blast
qed

text \<open>
  Claim C2 as stated fails: the key \<open>xyz/d\<close> does not start with the prefix \<open>abc\<close>,
  and \<open>prefixMatchesKey\<close> holds for them, since the only slash of the key is at
  index 3.
\<close>

theorem prefixMatchesKey_counterexample:
  "prefixMatchesKey ''abc'' ''xyz/d'' \<and> \<not> spec_PrefixMatchesKey ''abc'' ''xyz/d''"
  by code_simp

text \<open>The part after the slash may be empty.\<close>

lemma prefixMatchesKey_empty_suffix: "prefixMatchesKey ''abc'' ''abc/''"
  by code_simp

subsection \<open>keyToID\<close>

text \<open>
  Claim C10 (\<open>keyToID\<close> is total and handles a key equal to the master-key prefix
  without a panic) does not hold of the code: on the key \<open>idPrefix\<close> itself the
  suffix left by \<open>TrimPrefix\<close> is empty and \<open>suffix[0]\<close> panics.
\<close>

theorem keyToID_panics_on_prefix: "keyToID k (idPrefix k) = Panic"
  by (simp add: keyToID_def strings_HasPrefix_def strings_TrimPrefix_def)

text \<open>That key is the only one on which \<open>keyToID\<close> panics.\<close>

lemma keyToID_Panic_iff: "keyToID k key = Panic \<longleftrightarrow> key = idPrefix k"
  by (auto simp: keyToID_def strings_HasPrefix_def strings_TrimPrefix_def Let_def
      split: list.splits option.splits if_splits)

lemma keyToID_Panic_example:
  "keyToID (NewKVStoreBackend ''cilium/state/identities/v1'' ''10.0.0.1'')
     ''cilium/state/identities/v1/id'' = Panic"
  by code_simp

subsection \<open>The calls recorded by the logged store\<close>

lemma logged_simps:
  "ListPrefix (logged b) p (s, lg) =
     (fst (ListPrefix b p s), snd (ListPrefix b p s), lg @ [CallListPrefix p (fst (ListPrefix b p s))])"
  "ListPrefixIfLocked (logged b) p l (s, lg) =
     (fst (ListPrefixIfLocked b p l s), snd (ListPrefixIfLocked b p l s),
      lg @ [CallListPrefixIfLocked p l (fst (ListPrefixIfLocked b p l s))])"
  "CreateOnly (logged b) key v lease (s, lg) =
     (fst (CreateOnly b key v lease s), snd (CreateOnly b key v lease s),
      lg @ [CallCreateOnly key v lease (fst (CreateOnly b key v lease s))])"
  "CreateOnlyIfLocked (logged b) key v lease l (s, lg) =
     (fst (CreateOnlyIfLocked b key v lease l s), snd (CreateOnlyIfLocked b key v lease l s),
      lg @ [CallCreateOnlyIfLocked key v lease l (fst (CreateOnlyIfLocked b key v lease l s))])"
  "UpdateIfDifferent (logged b) key v lease (s, lg) =
     (fst (UpdateIfDifferent b key v lease s), snd (UpdateIfDifferent b key v lease s),
      lg @ [CallUpdateIfDifferent key v lease (fst (UpdateIfDifferent b key v lease s))])"
  "UpdateIfDifferentIfLocked (logged b) key v lease l (s, lg) =
     (fst (UpdateIfDifferentIfLocked b key v lease l s),
      snd (UpdateIfDifferentIfLocked b key v lease l s),
      lg @ [CallUpdateIfDifferentIfLocked key v lease l
              (fst (UpdateIfDifferentIfLocked b key v lease l s))])"
  "Delete (logged b) key (s, lg) =
     (fst (Delete b key s), snd (Delete b key s), lg @ [CallDelete key (fst (Delete b key s))])"
  "DeleteIfLocked (logged b) key l (s, lg) =
     (fst (DeleteIfLocked b key l s), snd (DeleteIfLocked b key l s),
      lg @ [CallDeleteIfLocked key l (fst (DeleteIfLocked b key l s))])"
  "LockPath (logged b) p (s, lg) =
     (fst (LockPath b p s), snd (LockPath b p s), lg @ [CallLockPath p (fst (LockPath b p s))])"
  "Unlock (logged b) l (s, lg) = (Unlock b l s, lg @ [CallUnlock l])"
  "loggedWait w (s, lg) = (fst (w s), snd (w s), lg @ [CallWait (fst (w s))])"
  by (simp_all add: logged_def loggedWait_def record1_def split: prod.splits)

subsection \<open>The store in memory\<close>

lemma map_of_filter_neq:
  "map_of (filter (\<lambda>p. fst p \<noteq> key) es) key' = (if key' = key then None else map_of es key')"
  by (induction es) auto


lemma map_of_memDelete:
  "map_of (entries (snd (memDelete key m))) key' = (if key' = key then None else map_of (entries m) key')"
  by (simp add: memDelete_def map_of_filter_neq)


lemma memCreateOnly_ok: "\<exists>r. fst (memCreateOnly key v lease m) = Inr r"
  by (auto simp: memCreateOnly_def split: option.splits)





subsection \<open>Get and GetIfLocked\<close>

lemma Get_loop_parsed:
  "Get_loop prefix pairs = NoID \<or>
   (\<exists>kk v. (kk, v) \<in> set pairs \<and> prefixMatchesKey prefix kk \<and>
      ParseUint (Data v) = Some (Get_loop prefix pairs))"
  by (induction prefix pairs rule: Get_loop.induct) (auto split: option.splits)

text \<open>
  Claim C5: when \<open>Get\<close> (or \<open>GetIfLocked\<close>) returns without an error, the ID it
  returns is \<open>NoID\<close> or the result of \<open>ParseUint\<close> on the data of one of the pairs
  that the listing of the prefix \<open>valuePrefix/key\<close> returned, a pair whose key
  satisfies \<open>prefixMatchesKey\<close> for that prefix. Data that does not parse is never
  returned.
\<close>

theorem Get_returns_parsed:
  "(Get k b key s = ((ident, None), s') \<longrightarrow>
      ident = NoID \<or>
      (\<exists>pairs kk v.
          ListPrefix b (path_Join [valuePrefix k, key]) s = (Inr pairs, s') \<and>
          (kk, v) \<in> set pairs \<and> prefixMatchesKey (path_Join [valuePrefix k, key]) kk \<and>
          ParseUint (Data v) = Some ident)) \<and>
   (GetIfLocked k b key lock s = ((ident, None), s') \<longrightarrow>
      ident = NoID \<or>
      (\<exists>pairs kk v.
          ListPrefixIfLocked b (path_Join [valuePrefix k, key]) lock s = (Inr pairs, s') \<and>
          (kk, v) \<in> set pairs \<and> prefixMatchesKey (path_Join [valuePrefix k, key]) kk \<and>
          ParseUint (Data v) = Some ident))"
  using Get_loop_parsed [of "path_Join [valuePrefix k, key]"]
  by (auto simp: Get_def GetIfLocked_def Let_def split: prod.splits sum.splits)

theorem Get_returns_parsed_witness:
  "Get exampleBackend memBackend ''k2'' exampleStore = ((301, None), exampleStore) \<and>
   GetIfLocked exampleBackend memBackend ''k2'' ''lock'' exampleStore =
     ((301, None), exampleStore) \<and>
   (\<exists>pairs kk v.
       ListPrefix memBackend (path_Join [valuePrefix exampleBackend, ''k2'']) exampleStore =
         (Inr pairs, exampleStore) \<and>
       (kk, v) \<in> set pairs \<and>
       prefixMatchesKey (path_Join [valuePrefix exampleBackend, ''k2'']) kk \<and>
       ParseUint (Data v) = Some 301) \<and>
   (\<exists>pairs kk v.
       ListPrefixIfLocked memBackend (path_Join [valuePrefix exampleBackend, ''k2'']) ''lock''
         exampleStore = (Inr pairs, exampleStore) \<and>
       (kk, v) \<in> set pairs \<and>
       prefixMatchesKey (path_Join [valuePrefix exampleBackend, ''k2'']) kk \<and>
       ParseUint (Data v) = Some 301)"
proof -
  have g: "Get exampleBackend memBackend ''k2'' exampleStore = ((301, None), exampleStore)"
    unfolding exampleBackend_def exampleStore_def by code_simp
  have l: "GetIfLocked exampleBackend memBackend ''k2'' ''lock'' exampleStore =
             ((301, None), exampleStore)"
    unfolding exampleBackend_def exampleStore_def by code_simp
  have n: "(301 :: ID) \<noteq> NoID"
    by (simp add: NoID_def)
  from Get_returns_parsed [of exampleBackend memBackend "''k2''" exampleStore 301 exampleStore
      "''lock''"] g l n
  show ?thesis by blast
qed

subsection \<open>UpdateKey\<close>



subsection \<open>Release\<close>



subsection \<open>The lock garbage collector\<close>

lemma RunLocksGC_body_logged:
  "RunLocksGC_body (logged b) prev (key, v) ((s, lg), stale) =
     (if \<exists>pv. prev key = Some pv \<and> ModRevision pv = ModRevision v \<and> LeaseID pv = LeaseID v
      then (if fst (Delete b key s) = None
            then ((snd (Delete b key s), lg @ [CallDelete key None]), stale)
            else ((snd (Delete b key s), lg @ [CallDelete key (fst (Delete b key s))]),
                  stale(key \<mapsto> \<lparr> Data = [], ModRevision = ModRevision v, LeaseID = LeaseID v \<rparr>)))
      else ((s, lg), stale(key \<mapsto> \<lparr> Data = [], ModRevision = ModRevision v, LeaseID = LeaseID v \<rparr>)))"
  by (auto simp: RunLocksGC_body_def Let_def logged_simps split: option.splits prod.splits)

lemma RunLocksGC_loop_logged:
  assumes "RunLocksGC_loop (logged b) prev xs ((s, lg), stale) = ((s', lg'), stale')"
  shows "\<exists>new. lg' = lg @ new \<and>
     (\<forall>c \<in> set new. \<exists>key r v pv. c = CallDelete key r \<and> (key, v) \<in> set xs \<and>
        prev key = Some pv \<and> ModRevision pv = ModRevision v \<and> LeaseID pv = LeaseID v) \<and>
     (\<forall>key v pv. (key, v) \<in> set xs \<and> prev key = Some pv \<and> ModRevision pv = ModRevision v \<and>
        LeaseID pv = LeaseID v \<longrightarrow> (\<exists>r. CallDelete key r \<in> set new)) \<and>
     (\<forall>key. key \<notin> fst ` set xs \<longrightarrow> stale' key = stale key) \<and>
     (distinct (map fst xs) \<longrightarrow>
        (\<forall>key v. (key, v) \<in> set xs \<longrightarrow>
           stale' key = (if CallDelete key None \<in> set new then stale key
                         else Some \<lparr> Data = [], ModRevision = ModRevision v, LeaseID = LeaseID v \<rparr>)))"
  using assms
proof (induction xs arbitrary: s lg stale)
  case Nil
  then show ?case by simp
next
  case (Cons kv xs)
  obtain key v where kv: "kv = (key, v)" by (cases kv)
  obtain s1 lg1 stale1 where body:
    "RunLocksGC_body (logged b) prev (key, v) ((s, lg), stale) = ((s1, lg1), stale1)"
    by (metis surj_pair)
  let ?m = "\<exists>pv. prev key = Some pv \<and> ModRevision pv = ModRevision v \<and> LeaseID pv = LeaseID v"
  let ?mark = "\<lparr> Data = [], ModRevision = ModRevision v, LeaseID = LeaseID v \<rparr>"
  from body obtain n1 where n1: "lg1 = lg @ n1"
    and n1_shape: "(\<not> ?m \<and> n1 = [] \<and> stale1 = stale(key \<mapsto> ?mark)) \<or>
                   (?m \<and> n1 = [CallDelete key None] \<and> stale1 = stale) \<or>
                   (?m \<and> (\<exists>err. n1 = [CallDelete key (Some err)]) \<and> stale1 = stale(key \<mapsto> ?mark))"
    unfolding RunLocksGC_body_logged by (auto split: if_splits)
  from Cons.prems have rest:
    "RunLocksGC_loop (logged b) prev xs ((s1, lg1), stale1) = ((s', lg'), stale')"
    by (simp add: kv body)
  from Cons.IH [OF rest] obtain new2 where new2: "lg' = lg1 @ new2"
    and only: "\<forall>c \<in> set new2. \<exists>key r v pv. c = CallDelete key r \<and> (key, v) \<in> set xs \<and>
        prev key = Some pv \<and> ModRevision pv = ModRevision v \<and> LeaseID pv = LeaseID v"
    and every: "\<forall>key v pv. (key, v) \<in> set xs \<and> prev key = Some pv \<and>
        ModRevision pv = ModRevision v \<and> LeaseID pv = LeaseID v \<longrightarrow> (\<exists>r. CallDelete key r \<in> set new2)"
    and other: "\<forall>key. key \<notin> fst ` set xs \<longrightarrow> stale' key = stale1 key"
    and dist: "distinct (map fst xs) \<longrightarrow>
        (\<forall>key v. (key, v) \<in> set xs \<longrightarrow>
           stale' key = (if CallDelete key None \<in> set new2 then stale1 key
                         else Some \<lparr> Data = [], ModRevision = ModRevision v, LeaseID = LeaseID v \<rparr>))"
    by blast
  have keys2: "\<And>key' r. CallDelete key' r \<in> set new2 \<Longrightarrow> key' \<in> fst ` set xs"
    using only by force
  show ?case
  proof (intro exI [of _ "n1 @ new2"] conjI)
    show "lg' = lg @ n1 @ new2" by (simp add: new2 n1)
    show "\<forall>c \<in> set (n1 @ new2). \<exists>key r v pv. c = CallDelete key r \<and> (key, v) \<in> set (kv # xs) \<and>
        prev key = Some pv \<and> ModRevision pv = ModRevision v \<and> LeaseID pv = LeaseID v"
      using only n1_shape kv by fastforce
    show "\<forall>key v pv. (key, v) \<in> set (kv # xs) \<and> prev key = Some pv \<and>
        ModRevision pv = ModRevision v \<and> LeaseID pv = LeaseID v \<longrightarrow> (\<exists>r. CallDelete key r \<in> set (n1 @ new2))"
      using every n1_shape kv by fastforce
    show "\<forall>key. key \<notin> fst ` set (kv # xs) \<longrightarrow> stale' key = stale key"
      using other n1_shape kv by auto
    show "distinct (map fst (kv # xs)) \<longrightarrow>
        (\<forall>key v. (key, v) \<in> set (kv # xs) \<longrightarrow>
           stale' key = (if CallDelete key None \<in> set (n1 @ new2) then stale key
                         else Some \<lparr> Data = [], ModRevision = ModRevision v, LeaseID = LeaseID v \<rparr>))"
    proof (intro impI allI)
      fix key' v'
      assume d: "distinct (map fst (kv # xs))" and mem: "(key', v') \<in> set (kv # xs)"
      from d have knot: "key \<notin> fst ` set xs" and dxs: "distinct (map fst xs)"
        by (auto simp: kv)
      show "stale' key' = (if CallDelete key' None \<in> set (n1 @ new2) then stale key'
                         else Some \<lparr> Data = [], ModRevision = ModRevision v', LeaseID = LeaseID v' \<rparr>)"
      proof (cases "(key', v') = (key, v)")
        case True
        have "CallDelete key None \<notin> set new2" using keys2 knot by blast
        moreover have "stale' key = stale1 key" using other knot by blast
        ultimately show ?thesis using True n1_shape by auto
      next
        case False
        with mem kv have in_xs: "(key', v') \<in> set xs" by auto
        then have neq: "key' \<noteq> key" using knot by force
        have "CallDelete key' None \<notin> set n1" using n1_shape neq by auto
        moreover have "stale1 key' = stale key'" using n1_shape neq by auto
        ultimately show ?thesis using dist dxs in_xs by auto
      qed
    qed
  qed
qed

text \<open>When the listing of the lock prefix fails, nothing else is called and the error is returned.\<close>

lemma RunLocksGC_list_failed:
  assumes "ListPrefix b (lockPrefix k) s = (Inl err, s1)"
  shows "RunLocksGC k (logged b) staleKeysPrevRound (s, []) =
           (Inl (Errorf ''list failed'' (Some err)), s1, [CallListPrefix (lockPrefix k) (Inl err)])"
  using assms by (simp add: RunLocksGC_def logged_simps)

text \<open>
  Claim C3: let the listing of the lock prefix succeed with distinct keys (it is a Go
  map). Then \<open>RunLocksGC\<close> returns a map, and: it calls \<open>Delete\<close> on a key exactly
  when the key is listed and the previous round's map holds it with the same
  \<open>ModRevision\<close> and the same \<open>LeaseID\<close>; a listed key is absent from the returned
  map when that \<open>Delete\<close> succeeded, and otherwise (not in the previous map, changed
  since, or the delete failed) it is in the returned map with the \<open>ModRevision\<close> and
  \<open>LeaseID\<close> of the listing; no other key is in the map.
\<close>

theorem RunLocksGC_deletes_iff_unchanged:
  assumes "ListPrefix b (lockPrefix k) s = (Inr allocated, s1)"
      and "distinct (map fst allocated)"
  shows "\<exists>staleKeys.
     fst (RunLocksGC k (logged b) staleKeysPrevRound (s, [])) = Inr staleKeys \<and>
     (\<forall>key. (\<exists>r. CallDelete key r \<in> set (snd (snd (RunLocksGC k (logged b) staleKeysPrevRound (s, []))))) \<longleftrightarrow>
        (\<exists>v modRev. (key, v) \<in> set allocated \<and> staleKeysPrevRound key = Some modRev \<and>
           ModRevision modRev = ModRevision v \<and> LeaseID modRev = LeaseID v)) \<and>
     (\<forall>key v. (key, v) \<in> set allocated \<longrightarrow>
        staleKeys key =
          (if CallDelete key None \<in> set (snd (snd (RunLocksGC k (logged b) staleKeysPrevRound (s, []))))
           then None
           else Some \<lparr> Data = [], ModRevision = ModRevision v, LeaseID = LeaseID v \<rparr>)) \<and>
     (\<forall>key. key \<notin> fst ` set allocated \<longrightarrow> staleKeys key = None)"
proof -
  let ?lg0 = "[CallListPrefix (lockPrefix k) (Inr allocated :: error + KeyValuePairs)]"
  obtain s2 lg2 staleKeys where loop:
    "RunLocksGC_loop (logged b) staleKeysPrevRound allocated ((s1, ?lg0), Map.empty) =
       ((s2, lg2), staleKeys)"
    by (metis surj_pair)
  have run: "RunLocksGC k (logged b) staleKeysPrevRound (s, []) = (Inr staleKeys, s2, lg2)"
    using assms(1) loop by (simp add: RunLocksGC_def logged_simps)
  from RunLocksGC_loop_logged [OF loop] obtain new where new: "lg2 = ?lg0 @ new"
    and only: "\<forall>c \<in> set new. \<exists>key r v pv. c = CallDelete key r \<and> (key, v) \<in> set allocated \<and>
        staleKeysPrevRound key = Some pv \<and> ModRevision pv = ModRevision v \<and> LeaseID pv = LeaseID v"
    and every: "\<forall>key v pv. (key, v) \<in> set allocated \<and> staleKeysPrevRound key = Some pv \<and>
        ModRevision pv = ModRevision v \<and> LeaseID pv = LeaseID v \<longrightarrow> (\<exists>r. CallDelete key r \<in> set new)"
    and other: "\<forall>key. key \<notin> fst ` set allocated \<longrightarrow> staleKeys key = Map.empty key"
    and dist: "distinct (map fst allocated) \<longrightarrow>
        (\<forall>key v. (key, v) \<in> set allocated \<longrightarrow>
           staleKeys key = (if CallDelete key None \<in> set new then Map.empty key
                         else Some \<lparr> Data = [], ModRevision = ModRevision v, LeaseID = LeaseID v \<rparr>))"
    by blast
  have mem: "\<And>key r. CallDelete key r \<in> set lg2 \<longleftrightarrow> CallDelete key r \<in> set new"
    by (auto simp: new)
  show ?thesis
  proof (intro exI [of _ staleKeys] conjI)
    show "fst (RunLocksGC k (logged b) staleKeysPrevRound (s, [])) = Inr staleKeys"
      by (simp add: run)
    show "\<forall>key. (\<exists>r. CallDelete key r \<in> set (snd (snd (RunLocksGC k (logged b) staleKeysPrevRound (s, []))))) \<longleftrightarrow>
        (\<exists>v modRev. (key, v) \<in> set allocated \<and> staleKeysPrevRound key = Some modRev \<and>
           ModRevision modRev = ModRevision v \<and> LeaseID modRev = LeaseID v)"
      unfolding run snd_conv mem using only every by fastforce
    show "\<forall>key v. (key, v) \<in> set allocated \<longrightarrow>
        staleKeys key =
          (if CallDelete key None \<in> set (snd (snd (RunLocksGC k (logged b) staleKeysPrevRound (s, []))))
           then None
           else Some \<lparr> Data = [], ModRevision = ModRevision v, LeaseID = LeaseID v \<rparr>)"
      unfolding run snd_conv mem using dist assms(2) by simp
    show "\<forall>key. key \<notin> fst ` set allocated \<longrightarrow> staleKeys key = None"
      using other by simp
  qed
qed

theorem RunLocksGC_deletes_iff_unchanged_witness:
  "ListPrefix memBackend (lockPrefix exampleBackend) exampleStore =
     (Inr (drop 6 (entries exampleStore)), exampleStore) \<and>
   distinct (map fst (drop 6 (entries exampleStore))) \<and>
   snd (snd (RunLocksGC exampleBackend (logged memBackend) exampleStaleLocks (exampleStore, []))) =
     [CallListPrefix ''base/locks'' (Inr (drop 6 (entries exampleStore))),
      CallDelete ''base/locks/a'' None] \<and>
   (\<exists>staleKeys.
      fst (RunLocksGC exampleBackend (logged memBackend) exampleStaleLocks (exampleStore, [])) =
        Inr staleKeys \<and>
      staleKeys ''base/locks/a'' = None \<and>
      staleKeys ''base/locks/b'' = Some \<lparr> Data = [], ModRevision = 4, LeaseID = 6 \<rparr> \<and>
      staleKeys ''base/locks/c'' = Some \<lparr> Data = [], ModRevision = 13, LeaseID = 9 \<rparr>)"
proof -
  have l: "ListPrefix memBackend (lockPrefix exampleBackend) exampleStore =
             (Inr (drop 6 (entries exampleStore)), exampleStore)"
    unfolding exampleBackend_def exampleStore_def by code_simp
  have d: "distinct (map fst (drop 6 (entries exampleStore)))"
    unfolding exampleStore_def by code_simp
  have lg: "snd (snd (RunLocksGC exampleBackend (logged memBackend) exampleStaleLocks
                        (exampleStore, []))) =
     [CallListPrefix ''base/locks'' (Inr (drop 6 (entries exampleStore))),
      CallDelete ''base/locks/a'' None]"
    unfolding exampleBackend_def exampleStore_def exampleStaleLocks_def by code_simp
  have e: "(''base/locks/a'', \<lparr> Data = ''x'', ModRevision = 3, LeaseID = 5 \<rparr>)
             \<in> set (drop 6 (entries exampleStore))"
     "(''base/locks/b'', \<lparr> Data = ''y'', ModRevision = 4, LeaseID = 6 \<rparr>)
             \<in> set (drop 6 (entries exampleStore))"
     "(''base/locks/c'', \<lparr> Data = ''z'', ModRevision = 13, LeaseID = 9 \<rparr>)
             \<in> set (drop 6 (entries exampleStore))"
    by (simp_all add: exampleStore_def)
  from RunLocksGC_deletes_iff_unchanged [OF l d, of exampleStaleLocks]
  obtain staleKeys where
    "fst (RunLocksGC exampleBackend (logged memBackend) exampleStaleLocks (exampleStore, [])) =
       Inr staleKeys"
    "\<forall>key v. (key, v) \<in> set (drop 6 (entries exampleStore)) \<longrightarrow>
        staleKeys key =
          (if CallDelete key None \<in> set (snd (snd (RunLocksGC exampleBackend (logged memBackend)
                                                     exampleStaleLocks (exampleStore, []))))
           then None
           else Some \<lparr> Data = [], ModRevision = ModRevision v, LeaseID = LeaseID v \<rparr>)"
    by blast
  then show ?thesis using l d lg e by (intro conjI exI [of _ staleKeys]) (simp_all add: lg)
qed

subsection \<open>The identity garbage collector: what is deleted\<close>

text \<open>
  The calls that one iteration of the loop of \<open>RunGC\<close> adds to the log: none, a
  failed lock, a lock with a listing and an unlock, or a lock, a listing, the locked
  delete, the unlock and the wait of the rate limiter.
\<close>

lemma RunGC_body_logged_cases:
  assumes "RunGC_body k (logged b) (loggedWait w) prev mn mx (key, v) ((s, lg), stale, del) =
             (e, (s', lg'), stale', del')"
  shows
    "(lg' = lg \<and> s' = s \<and> stale' = stale \<and> del' = del \<and> e = None) \<or>
     ((\<exists>i. ParseUint (last (strings_Split key (CHR ''/''))) = Some i \<and> mn \<le> i \<and> i \<le> mx) \<and>
      ((\<exists>err. lg' = lg @ [CallLockPath (path_Join [lockPrefix k, strings_TrimPrefix key (basePrefix k)]) (Inl err)]
          \<and> stale' = stale \<and> del' = del \<and> e = None) \<or>
       (\<exists>l r. lg' = lg @ [CallLockPath (path_Join [lockPrefix k, strings_TrimPrefix key (basePrefix k)]) (Inr l),
                        CallListPrefixIfLocked (path_Join [valuePrefix k, Data v]) l r, CallUnlock l]
          \<and> (stale' = stale \<or> stale' = stale(key \<mapsto> ModRevision v)) \<and> del' = del \<and> e = None) \<or>
       (\<exists>l pairs r wr.
           lg' = lg @ [CallLockPath (path_Join [lockPrefix k, strings_TrimPrefix key (basePrefix k)]) (Inr l),
                       CallListPrefixIfLocked (path_Join [valuePrefix k, Data v]) l (Inr pairs),
                       CallDeleteIfLocked key l r, CallUnlock l, CallWait wr]
          \<and> (\<forall>p \<in> set pairs. \<not> prefixMatchesKey (path_Join [valuePrefix k, Data v]) (fst p))
          \<and> prev key = Some (ModRevision v) \<and> stale' = stale \<and> e = wr)))"
  using assms
  unfolding RunGC_body_def lockPath_def
  by (auto simp: Let_def logged_simps list_ex_iff not_less
      split: option.splits sum.splits prod.splits if_splits)

lemma RunGC_body_logged_deletes:
  assumes "RunGC_body k (logged b) (loggedWait w) prev mn mx (key, v) ((s, lg), stale, del) =
             (e, (s', lg'), stale', del')"
  shows "\<exists>new. lg' = lg @ new \<and>
     (\<forall>key' l r. CallDeleteIfLocked key' l r \<in> set new \<longrightarrow>
        key' = key \<and>
        (\<exists>pairs post.
            new = [CallLockPath (path_Join [lockPrefix k, strings_TrimPrefix key (basePrefix k)]) (Inr l),
                   CallListPrefixIfLocked (path_Join [valuePrefix k, Data v]) l (Inr pairs),
                   CallDeleteIfLocked key l r] @ post \<and>
            (\<forall>p \<in> set pairs. \<not> prefixMatchesKey (path_Join [valuePrefix k, Data v]) (fst p)) \<and>
            prev key = Some (ModRevision v) \<and>
            (\<exists>i. ParseUint (last (strings_Split key (CHR ''/''))) = Some i \<and> mn \<le> i \<and> i \<le> mx))) \<and>
     (\<forall>key' r. CallDelete key' r \<notin> set new)"
  using RunGC_body_logged_cases [OF assms] by (elim disjE conjE exE) auto

lemma RunGC_loop_logged_deletes:
  assumes "RunGC_loop k (logged b) (loggedWait w) prev mn mx xs ((s, lg), stale, del) =
             (e, (s', lg'), stale', del')"
  shows "\<exists>new. lg' = lg @ new \<and>
     (\<forall>key l r. CallDeleteIfLocked key l r \<in> set new \<longrightarrow>
        (\<exists>pre post v pairs.
            new = pre @
                  [CallLockPath (path_Join [lockPrefix k, strings_TrimPrefix key (basePrefix k)]) (Inr l),
                   CallListPrefixIfLocked (path_Join [valuePrefix k, Data v]) l (Inr pairs),
                   CallDeleteIfLocked key l r] @ post \<and>
            (key, v) \<in> set xs \<and>
            (\<forall>p \<in> set pairs. \<not> prefixMatchesKey (path_Join [valuePrefix k, Data v]) (fst p)) \<and>
            prev key = Some (ModRevision v) \<and>
            (\<exists>i. ParseUint (last (strings_Split key (CHR ''/''))) = Some i \<and> mn \<le> i \<and> i \<le> mx))) \<and>
     (\<forall>key r. CallDelete key r \<notin> set new)"
  using assms
proof (induction xs arbitrary: s lg stale del)
  case Nil
  then show ?case by simp
next
  case (Cons kv xs)
  obtain key0 v0 where kv: "kv = (key0, v0)" by (cases kv)
  obtain e1 s1 lg1 stale1 del1 where body:
    "RunGC_body k (logged b) (loggedWait w) prev mn mx (key0, v0) ((s, lg), stale, del) =
       (e1, (s1, lg1), stale1, del1)"
    by (metis surj_pair)
  from RunGC_body_logged_deletes [OF body] obtain n1 where n1: "lg1 = lg @ n1"
    and del1: "\<And>key' l r. CallDeleteIfLocked key' l r \<in> set n1 \<Longrightarrow>
        key' = key0 \<and>
        (\<exists>pairs post.
            n1 = [CallLockPath (path_Join [lockPrefix k, strings_TrimPrefix key0 (basePrefix k)]) (Inr l),
                   CallListPrefixIfLocked (path_Join [valuePrefix k, Data v0]) l (Inr pairs),
                   CallDeleteIfLocked key0 l r] @ post \<and>
            (\<forall>p \<in> set pairs. \<not> prefixMatchesKey (path_Join [valuePrefix k, Data v0]) (fst p)) \<and>
            prev key0 = Some (ModRevision v0) \<and>
            (\<exists>i. ParseUint (last (strings_Split key0 (CHR ''/''))) = Some i \<and> mn \<le> i \<and> i \<le> mx))"
    and nodel1: "\<And>key' r. CallDelete key' r \<notin> set n1"
    by blast
  obtain new2 where new2: "lg' = lg1 @ new2"
    and del2: "\<And>key l r. CallDeleteIfLocked key l r \<in> set new2 \<Longrightarrow>
        (\<exists>pre post v pairs.
            new2 = pre @
                  [CallLockPath (path_Join [lockPrefix k, strings_TrimPrefix key (basePrefix k)]) (Inr l),
                   CallListPrefixIfLocked (path_Join [valuePrefix k, Data v]) l (Inr pairs),
                   CallDeleteIfLocked key l r] @ post \<and>
            (key, v) \<in> set xs \<and>
            (\<forall>p \<in> set pairs. \<not> prefixMatchesKey (path_Join [valuePrefix k, Data v]) (fst p)) \<and>
            prev key = Some (ModRevision v) \<and>
            (\<exists>i. ParseUint (last (strings_Split key (CHR ''/''))) = Some i \<and> mn \<le> i \<and> i \<le> mx))"
    and nodel2: "\<And>key r. CallDelete key r \<notin> set new2"
  proof (cases e1)
    case None
    with Cons.prems have
      "RunGC_loop k (logged b) (loggedWait w) prev mn mx xs ((s1, lg1), stale1, del1) =
         (e, (s', lg'), stale', del')"
      by (simp add: kv body)
    from Cons.IH [OF this] show ?thesis using that by blast
  next
    case (Some err)
    with Cons.prems have "lg' = lg1" by (simp add: kv body)
    then show ?thesis using that [of "[]"] by simp
  qed
  show ?case
  proof (rule exI [of _ "n1 @ new2"], intro conjI allI impI)
    show "lg' = lg @ n1 @ new2" by (simp add: new2 n1)
  next
    fix key l r
    assume "CallDeleteIfLocked key l r \<in> set (n1 @ new2)"
    then consider (first) "CallDeleteIfLocked key l r \<in> set n1"
      | (later) "CallDeleteIfLocked key l r \<in> set new2" by auto
    then show "\<exists>pre post v pairs.
            n1 @ new2 = pre @
                  [CallLockPath (path_Join [lockPrefix k, strings_TrimPrefix key (basePrefix k)]) (Inr l),
                   CallListPrefixIfLocked (path_Join [valuePrefix k, Data v]) l (Inr pairs),
                   CallDeleteIfLocked key l r] @ post \<and>
            (key, v) \<in> set (kv # xs) \<and>
            (\<forall>p \<in> set pairs. \<not> prefixMatchesKey (path_Join [valuePrefix k, Data v]) (fst p)) \<and>
            prev key = Some (ModRevision v) \<and>
            (\<exists>i. ParseUint (last (strings_Split key (CHR ''/''))) = Some i \<and> mn \<le> i \<and> i \<le> mx)"
    proof cases
      case first
      from del1 [OF first] obtain pairs post where
        "key = key0"
        "n1 = [CallLockPath (path_Join [lockPrefix k, strings_TrimPrefix key0 (basePrefix k)]) (Inr l),
                   CallListPrefixIfLocked (path_Join [valuePrefix k, Data v0]) l (Inr pairs),
                   CallDeleteIfLocked key0 l r] @ post"
        "\<forall>p \<in> set pairs. \<not> prefixMatchesKey (path_Join [valuePrefix k, Data v0]) (fst p)"
        "prev key0 = Some (ModRevision v0) \<and>
            (\<exists>i. ParseUint (last (strings_Split key0 (CHR ''/''))) = Some i \<and> mn \<le> i \<and> i \<le> mx)"
        by blast
      then show ?thesis
        by (intro exI [of _ "[]"] exI [of _ "post @ new2"] exI [of _ v0] exI [of _ pairs])
           (simp add: kv)
    next
      case later
      from del2 [OF later] obtain pre post v pairs where
        "new2 = pre @
                  [CallLockPath (path_Join [lockPrefix k, strings_TrimPrefix key (basePrefix k)]) (Inr l),
                   CallListPrefixIfLocked (path_Join [valuePrefix k, Data v]) l (Inr pairs),
                   CallDeleteIfLocked key l r] @ post"
        "(key, v) \<in> set xs"
        "\<forall>p \<in> set pairs. \<not> prefixMatchesKey (path_Join [valuePrefix k, Data v]) (fst p)"
        "prev key = Some (ModRevision v) \<and>
            (\<exists>i. ParseUint (last (strings_Split key (CHR ''/''))) = Some i \<and> mn \<le> i \<and> i \<le> mx)"
        by blast
      then show ?thesis
        by (intro exI [of _ "n1 @ pre"] exI [of _ post] exI [of _ v] exI [of _ pairs]) simp
    qed
  next
    fix key r
    show "CallDelete key r \<notin> set (n1 @ new2)"
      using nodel1 nodel2 by simp
  qed
qed

lemma RunGC_delete_justified:
  assumes "CallDeleteIfLocked key lock r \<in>
             set (snd (snd (RunGC k (logged b) (loggedWait rateLimit) staleKeysPrevRound
                              minID maxID (s, []))))"
  shows "\<exists>allocated pre post v pairs.
     fst (ListPrefix b (idPrefix k) s) = Inr allocated \<and>
     (key, v) \<in> set allocated \<and>
     snd (snd (RunGC k (logged b) (loggedWait rateLimit) staleKeysPrevRound minID maxID (s, []))) =
       pre @
       [CallLockPath (path_Join [lockPrefix k, strings_TrimPrefix key (basePrefix k)]) (Inr lock),
        CallListPrefixIfLocked (path_Join [valuePrefix k, Data v]) lock (Inr pairs),
        CallDeleteIfLocked key lock r] @ post \<and>
     (\<forall>p \<in> set pairs. \<not> prefixMatchesKey (path_Join [valuePrefix k, Data v]) (fst p)) \<and>
     staleKeysPrevRound key = Some (ModRevision v) \<and>
            (\<exists>i. ParseUint (last (strings_Split key (CHR ''/''))) = Some i \<and> minID \<le> i \<and> i \<le> maxID)"
proof (cases "fst (ListPrefix b (idPrefix k) s)")
  case (Inl err)
  then have "snd (snd (RunGC k (logged b) (loggedWait rateLimit) staleKeysPrevRound
                              minID maxID (s, []))) = [CallListPrefix (idPrefix k) (Inl err)]"
    by (simp add: RunGC_def logged_simps)
  with assms show ?thesis by simp
next
  case (Inr allocated)
  let ?lg0 = "[CallListPrefix (idPrefix k) (Inr allocated :: error + KeyValuePairs)]"
  obtain e s2 lg2 stale2 del2 where loop:
    "RunGC_loop k (logged b) (loggedWait rateLimit) staleKeysPrevRound minID maxID allocated
       ((snd (ListPrefix b (idPrefix k) s), ?lg0), Map.empty, 0) = (e, (s2, lg2), stale2, del2)"
    by (metis surj_pair)
  have lg: "snd (snd (RunGC k (logged b) (loggedWait rateLimit) staleKeysPrevRound
                              minID maxID (s, []))) = lg2"
    using Inr loop by (simp add: RunGC_def logged_simps Let_def split: option.splits)
  from RunGC_loop_logged_deletes [OF loop] obtain new where new: "lg2 = ?lg0 @ new"
    and dels: "\<And>key l r. CallDeleteIfLocked key l r \<in> set new \<Longrightarrow>
        (\<exists>pre post v pairs.
            new = pre @
                  [CallLockPath (path_Join [lockPrefix k, strings_TrimPrefix key (basePrefix k)]) (Inr l),
                   CallListPrefixIfLocked (path_Join [valuePrefix k, Data v]) l (Inr pairs),
                   CallDeleteIfLocked key l r] @ post \<and>
            (key, v) \<in> set allocated \<and>
            (\<forall>p \<in> set pairs. \<not> prefixMatchesKey (path_Join [valuePrefix k, Data v]) (fst p)) \<and>
            staleKeysPrevRound key = Some (ModRevision v) \<and>
            (\<exists>i. ParseUint (last (strings_Split key (CHR ''/''))) = Some i \<and> minID \<le> i \<and> i \<le> maxID))"
    by blast
  from assms have "CallDeleteIfLocked key lock r \<in> set new"
    by (simp add: lg new)
  from dels [OF this] obtain pre post v pairs where
    "new = pre @
                  [CallLockPath (path_Join [lockPrefix k, strings_TrimPrefix key (basePrefix k)]) (Inr lock),
                   CallListPrefixIfLocked (path_Join [valuePrefix k, Data v]) lock (Inr pairs),
                   CallDeleteIfLocked key lock r] @ post"
    "(key, v) \<in> set allocated"
    "\<forall>p \<in> set pairs. \<not> prefixMatchesKey (path_Join [valuePrefix k, Data v]) (fst p)"
    "staleKeysPrevRound key = Some (ModRevision v) \<and>
            (\<exists>i. ParseUint (last (strings_Split key (CHR ''/''))) = Some i \<and> minID \<le> i \<and> i \<le> maxID)"
    by blast
  then show ?thesis
    unfolding lg new
    by (intro exI [of _ allocated] exI [of _ "?lg0 @ pre"] exI [of _ post] exI [of _ v]
          exI [of _ pairs]) (simp add: Inr)
qed


lemma RunGC_no_plain_delete:
  "CallDelete key r \<notin>
     set (snd (snd (RunGC k (logged b) (loggedWait rateLimit) staleKeysPrevRound
                      minID maxID (s, []))))"
proof (cases "fst (ListPrefix b (idPrefix k) s)")
  case (Inl err)
  then show ?thesis by (simp add: RunGC_def logged_simps)
next
  case (Inr allocated)
  let ?lg0 = "[CallListPrefix (idPrefix k) (Inr allocated :: error + KeyValuePairs)]"
  obtain e s2 lg2 stale2 del2 where loop:
    "RunGC_loop k (logged b) (loggedWait rateLimit) staleKeysPrevRound minID maxID allocated
       ((snd (ListPrefix b (idPrefix k) s), ?lg0), Map.empty, 0) = (e, (s2, lg2), stale2, del2)"
    by (metis surj_pair)
  have lg: "snd (snd (RunGC k (logged b) (loggedWait rateLimit) staleKeysPrevRound
                              minID maxID (s, []))) = lg2"
    using Inr loop by (simp add: RunGC_def logged_simps Let_def split: option.splits)
  from RunGC_loop_logged_deletes [OF loop] obtain new where "lg2 = ?lg0 @ new"
    and "\<forall>key r. CallDelete key r \<notin> set new"
    by blast
  then show ?thesis by (simp add: lg)
qed

text \<open>
  Claim C1: on any store, \<open>RunGC\<close> never calls the plain \<open>Delete\<close>, and every
  \<open>DeleteIfLocked\<close> of a key that it calls comes immediately after the listing of
  the slave keys under the lock of that call, which comes immediately after the
  successful \<open>lockPath\<close> of the key that returned this lock; the key is one of the
  master keys listed in this cycle, with some value \<open>v\<close>; the locked listing of
  \<open>valuePrefix/Data v\<close> succeeded and none of its keys satisfies
  \<open>prefixMatchesKey\<close>; the previous round's map holds the key with exactly the
  \<open>ModRevision\<close> listed in this cycle; and the ID of the key is within
  \<open>[minID, maxID]\<close>. So a master key with a matching slave key, or whose revision
  differs from the one recorded by the previous cycle, is not deleted.
\<close>

theorem RunGC_deletes_only_locked_unused_marked:
  "(\<forall>key r. CallDelete key r \<notin>
      set (snd (snd (RunGC k (logged b) (loggedWait rateLimit) staleKeysPrevRound
                       minID maxID (s, []))))) \<and>
   (\<forall>key lock r.
      CallDeleteIfLocked key lock r \<in>
        set (snd (snd (RunGC k (logged b) (loggedWait rateLimit) staleKeysPrevRound
                         minID maxID (s, [])))) \<longrightarrow>
      (\<exists>allocated pre post v pairs.
         fst (ListPrefix b (idPrefix k) s) = Inr allocated \<and>
         (key, v) \<in> set allocated \<and>
         snd (snd (RunGC k (logged b) (loggedWait rateLimit) staleKeysPrevRound
                     minID maxID (s, []))) =
           pre @
           [CallLockPath (path_Join [lockPrefix k, strings_TrimPrefix key (basePrefix k)]) (Inr lock),
            CallListPrefixIfLocked (path_Join [valuePrefix k, Data v]) lock (Inr pairs),
            CallDeleteIfLocked key lock r] @ post \<and>
         (\<forall>p \<in> set pairs. \<not> prefixMatchesKey (path_Join [valuePrefix k, Data v]) (fst p)) \<and>
         staleKeysPrevRound key = Some (ModRevision v) \<and>
         (\<exists>i. ParseUint (last (strings_Split key (CHR ''/''))) = Some i \<and> minID \<le> i \<and> i \<le> maxID)))"
  using RunGC_no_plain_delete [of _ _ k b rateLimit staleKeysPrevRound minID maxID s]
    RunGC_delete_justified [of _ _ _ k b rateLimit staleKeysPrevRound minID maxID s]
  by blast

lemma example_RunGC_log:
  "snd (snd (RunGC exampleBackend (logged memBackend) (loggedWait memWait) examplePrev
               256 65535 (exampleStore, []))) =
     [CallListPrefix ''base/id'' (Inr (take 3 (entries exampleStore))),
      CallLockPath ''base/locks/id/300'' (Inr ''base/locks/id/300''),
      CallListPrefixIfLocked ''base/value/k1'' ''base/locks/id/300'' (Inr []),
      CallDeleteIfLocked ''base/id/300'' ''base/locks/id/300'' None,
      CallUnlock ''base/locks/id/300'',
      CallWait None,
      CallLockPath ''base/locks/id/301'' (Inr ''base/locks/id/301''),
      CallListPrefixIfLocked ''base/value/k2'' ''base/locks/id/301''
        (Inr (take 3 (drop 3 (entries exampleStore)))),
      CallUnlock ''base/locks/id/301'']"
  unfolding exampleBackend_def exampleStore_def examplePrev_def by code_simp

theorem RunGC_deletes_only_locked_unused_marked_witness:
  "CallDeleteIfLocked ''base/id/300'' ''base/locks/id/300'' None \<in>
     set (snd (snd (RunGC exampleBackend (logged memBackend) (loggedWait memWait) examplePrev
                      256 65535 (exampleStore, [])))) \<and>
   (\<exists>allocated pre post v pairs.
         fst (ListPrefix memBackend (idPrefix exampleBackend) exampleStore) = Inr allocated \<and>
         (''base/id/300'', v) \<in> set allocated \<and>
         snd (snd (RunGC exampleBackend (logged memBackend) (loggedWait memWait) examplePrev
                     256 65535 (exampleStore, []))) =
           pre @
           [CallLockPath (path_Join [lockPrefix exampleBackend,
                            strings_TrimPrefix ''base/id/300'' (basePrefix exampleBackend)])
              (Inr ''base/locks/id/300''),
            CallListPrefixIfLocked (path_Join [valuePrefix exampleBackend, Data v])
              ''base/locks/id/300'' (Inr pairs),
            CallDeleteIfLocked ''base/id/300'' ''base/locks/id/300'' None] @ post \<and>
         list_all (\<lambda>p. \<not> prefixMatchesKey (path_Join [valuePrefix exampleBackend, Data v]) (fst p)) pairs \<and>
         examplePrev ''base/id/300'' = Some (ModRevision v) \<and>
         (\<exists>i. ParseUint (last (strings_Split ''base/id/300'' (CHR ''/''))) = Some i \<and>
              256 \<le> i \<and> i \<le> 65535))"
proof -
  have d: "CallDeleteIfLocked ''base/id/300'' ''base/locks/id/300'' None \<in>
     set (snd (snd (RunGC exampleBackend (logged memBackend) (loggedWait memWait) examplePrev
                      256 65535 (exampleStore, []))))"
    unfolding example_RunGC_log by simp
  from RunGC_deletes_only_locked_unused_marked [of exampleBackend memBackend memWait examplePrev
      256 65535 exampleStore] d
  show ?thesis unfolding list_all_iff by blast
qed

subsection \<open>The identity garbage collector: what is skipped and what is marked\<close>

lemma RunGC_body_skip:
  assumes "ParseUint (last (strings_Split key (CHR ''/''))) = Some identityID"
      and "identityID < minID \<or> identityID > maxID"
  shows "RunGC_body k b rateLimit prev minID maxID (key, v) st = (None, st)"
  using assms by (cases st) (auto simp: RunGC_body_def Let_def)

lemma RunGC_loop_append:
  "RunGC_loop k b rateLimit prev minID maxID (xs @ ys) st =
     (case RunGC_loop k b rateLimit prev minID maxID xs st of
        (Some err, st') \<Rightarrow> (Some err, st')
      | (None, st') \<Rightarrow> RunGC_loop k b rateLimit prev minID maxID ys st')"
  by (induction xs arbitrary: st) (auto split: prod.splits option.splits)

lemma RunGC_body_stale:
  assumes "RunGC_body k b rateLimit prev minID maxID (key, v) (s, stale, del) = (e, s', stale', del')"
  shows "stale' = stale \<or>
         (stale' = stale(key \<mapsto> ModRevision v) \<and> prev key = None \<and> e = None \<and>
          (\<exists>i. ParseUint (last (strings_Split key (CHR ''/''))) = Some i \<and> minID \<le> i \<and> i \<le> maxID))"
  using assms
  unfolding RunGC_body_def lockPath_def
  by (auto simp: Let_def not_less split: option.splits sum.splits prod.splits if_splits)

lemma RunGC_loop_stale_other:
  assumes "RunGC_loop k b rateLimit prev minID maxID xs (s, stale, del) = (e, s', stale', del')"
      and "\<forall>v. (key, v) \<in> set xs \<longrightarrow>
             prev key \<noteq> None \<or>
             \<not> (\<exists>i. ParseUint (last (strings_Split key (CHR ''/''))) = Some i \<and> minID \<le> i \<and> i \<le> maxID)"
  shows "stale' key = stale key"
  using assms
proof (induction xs arbitrary: s stale del)
  case Nil
  then show ?case by simp
next
  case (Cons kv xs)
  obtain key0 v0 where kv: "kv = (key0, v0)" by (cases kv)
  obtain e1 s1 stale1 del1 where body:
    "RunGC_body k b rateLimit prev minID maxID (key0, v0) (s, stale, del) = (e1, s1, stale1, del1)"
    by (metis surj_pair)
  from RunGC_body_stale [OF body] Cons.prems(2) have st1: "stale1 key = stale key"
    by (cases "key0 = key") (auto simp: kv)
  show ?case
  proof (cases e1)
    case None
    with Cons.prems(1) have
      "RunGC_loop k b rateLimit prev minID maxID xs (s1, stale1, del1) = (e, s', stale', del')"
      by (simp add: kv body)
    moreover have "\<forall>v. (key, v) \<in> set xs \<longrightarrow>
             prev key \<noteq> None \<or>
             \<not> (\<exists>i. ParseUint (last (strings_Split key (CHR ''/''))) = Some i \<and> minID \<le> i \<and> i \<le> maxID)"
      using Cons.prems(2) by simp
    ultimately have "stale' key = stale1 key" by (rule Cons.IH)
    with st1 show ?thesis by simp
  next
    case (Some err)
    with Cons.prems(1) have "stale' = stale1" by (simp add: kv body)
    with st1 show ?thesis by simp
  qed
qed

lemma strings_Split_not_Nil: "strings_Split s c \<noteq> []"
  by (induction s) (auto split: list.splits)

lemma RunGC_body_first_seen:
  assumes "ParseUint (last (strings_Split key (CHR ''/''))) = Some identityID"
      and "minID \<le> identityID" and "identityID \<le> maxID"
      and "lockPath k b key s = (Inr lock, s1)"
      and "ListPrefixIfLocked b (path_Join [valuePrefix k, Data v]) lock s1 = (Inr pairs, s2)"
      and "\<forall>p \<in> set pairs. \<not> prefixMatchesKey (path_Join [valuePrefix k, Data v]) (fst p)"
      and "prev key = None"
  shows "RunGC_body k b rateLimit prev minID maxID (key, v) (s, stale, del) =
           (None, Unlock b lock s2, stale(key \<mapsto> ModRevision v), del)"
  using assms
  by (simp add: RunGC_body_def Let_def strings_Split_not_Nil list_ex_iff not_less [symmetric])

lemma RunGC_body_changed:
  assumes "ParseUint (last (strings_Split key (CHR ''/''))) = Some identityID"
      and "minID \<le> identityID" and "identityID \<le> maxID"
      and "lockPath k b key s = (Inr lock, s1)"
      and "ListPrefixIfLocked b (path_Join [valuePrefix k, Data v]) lock s1 = (Inr pairs, s2)"
      and "\<forall>p \<in> set pairs. \<not> prefixMatchesKey (path_Join [valuePrefix k, Data v]) (fst p)"
      and "prev key = Some modRev" and "modRev \<noteq> ModRevision v"
  shows "RunGC_body k b rateLimit prev minID maxID (key, v) (s, stale, del) =
           (None, Unlock b lock s2, stale, del)"
  using assms
  by (simp add: RunGC_body_def Let_def strings_Split_not_Nil list_ex_iff not_less [symmetric])

text \<open>
  Claim C6: let the last path segment of a master key parse as an ID below \<open>minID\<close>
  or above \<open>maxID\<close>. Then the iteration of \<open>RunGC\<close> for that key calls nothing
  (the store and the log of calls are unchanged: no lock, no listing, no delete) and
  leaves the stale map and the counter as they are; the loop over a listing with the key
  is the loop over the listing without it; the whole run calls no \<open>DeleteIfLocked\<close>
  of the key; and the map that \<open>RunGC\<close> returns does not hold the key.
\<close>

theorem RunGC_skips_out_of_range:
  assumes "ParseUint (last (strings_Split key (CHR ''/''))) = Some identityID"
      and "identityID < minID \<or> identityID > maxID"
  shows "RunGC_body k (logged b) (loggedWait rateLimit) prev minID maxID (key, v)
           ((s, lg), staleKeys, deletedEntries) = (None, (s, lg), staleKeys, deletedEntries) \<and>
         RunGC_loop k b rateLimit prev minID maxID (before @ (key, v) # after) st =
           RunGC_loop k b rateLimit prev minID maxID (before @ after) st \<and>
         (\<forall>lock r. CallDeleteIfLocked key lock r \<notin>
            set (snd (snd (RunGC k (logged b) (loggedWait rateLimit) prev minID maxID (s, []))))) \<and>
         (\<forall>newStale stats. fst (RunGC k b rateLimit prev minID maxID s) = Inr (newStale, stats) \<longrightarrow>
            newStale key = None)"
proof (intro conjI allI impI)
  show "RunGC_body k (logged b) (loggedWait rateLimit) prev minID maxID (key, v)
           ((s, lg), staleKeys, deletedEntries) = (None, (s, lg), staleKeys, deletedEntries)"
    using assms by (rule RunGC_body_skip)
  show "RunGC_loop k b rateLimit prev minID maxID (before @ (key, v) # after) st =
           RunGC_loop k b rateLimit prev minID maxID (before @ after) st"
    by (simp add: RunGC_loop_append RunGC_body_skip [OF assms] split: prod.splits option.splits)
next
  fix lock r
  show "CallDeleteIfLocked key lock r \<notin>
            set (snd (snd (RunGC k (logged b) (loggedWait rateLimit) prev minID maxID (s, []))))"
  proof
    assume "CallDeleteIfLocked key lock r \<in>
            set (snd (snd (RunGC k (logged b) (loggedWait rateLimit) prev minID maxID (s, []))))"
    from RunGC_delete_justified [OF this] obtain i where
      "ParseUint (last (strings_Split key (CHR ''/''))) = Some i" "minID \<le> i" "i \<le> maxID"
      by blast
    with assms show False by auto
  qed
next
  fix newStale stats
  assume run: "fst (RunGC k b rateLimit prev minID maxID s) = Inr (newStale, stats)"
  then obtain allocated s1 where list: "ListPrefix b (idPrefix k) s = (Inr allocated, s1)"
    by (auto simp: RunGC_def split: prod.splits sum.splits)
  with run obtain s2 del where loop:
    "RunGC_loop k b rateLimit prev minID maxID allocated (s1, Map.empty, 0) = (None, s2, newStale, del)"
    by (auto simp: RunGC_def Let_def split: prod.splits option.splits)
  have "newStale key = Map.empty key"
  proof (rule RunGC_loop_stale_other [OF loop])
    show "\<forall>v. (key, v) \<in> set allocated \<longrightarrow>
             prev key \<noteq> None \<or>
             \<not> (\<exists>i. ParseUint (last (strings_Split key (CHR ''/''))) = Some i \<and> minID \<le> i \<and> i \<le> maxID)"
      using assms by (auto simp: not_less)
  qed
  then show "newStale key = None" by simp
qed

theorem RunGC_skips_out_of_range_witness:
  "ParseUint (last (strings_Split ''base/id/999999'' (CHR ''/''))) = Some 999999 \<and>
   (999999 :: ID) > 65535 \<and>
   examplePrev ''base/id/999999'' = Some 9 \<and>
   CallDeleteIfLocked ''base/id/999999'' ''base/locks/id/999999'' None \<notin>
     set (snd (snd (RunGC exampleBackend (logged memBackend) (loggedWait memWait) examplePrev
                      256 65535 (exampleStore, [])))) \<and>
   (\<exists>newStale stats.
      fst (RunGC exampleBackend memBackend memWait examplePrev 256 65535 exampleStore) =
        Inr (newStale, stats) \<and>
      newStale ''base/id/999999'' = None)"
proof -
  have p: "ParseUint (last (strings_Split ''base/id/999999'' (CHR ''/''))) = Some 999999"
    by code_simp
  have r: "(999999 :: ID) < 256 \<or> (999999 :: ID) > 65535"
    by simp
  have e: "examplePrev ''base/id/999999'' = Some 9"
    by (simp add: examplePrev_def)
  have "\<not> isl (fst (RunGC exampleBackend memBackend memWait examplePrev 256 65535 exampleStore))"
    unfolding exampleBackend_def exampleStore_def examplePrev_def by code_simp
  then obtain newStale stats where
    run: "fst (RunGC exampleBackend memBackend memWait examplePrev 256 65535 exampleStore) =
            Inr (newStale, stats)"
    by (cases "fst (RunGC exampleBackend memBackend memWait examplePrev 256 65535 exampleStore)")
       auto
  note t = RunGC_skips_out_of_range [OF p r, where k = exampleBackend and b = memBackend
      and rateLimit = memWait and prev = examplePrev and s = exampleStore]
  from t run have "newStale ''base/id/999999'' = None"
    by blast
  moreover from t have
    "CallDeleteIfLocked ''base/id/999999'' ''base/locks/id/999999'' None \<notin>
     set (snd (snd (RunGC exampleBackend (logged memBackend) (loggedWait memWait) examplePrev
                      256 65535 (exampleStore, []))))"
    by blast
  ultimately show ?thesis using p e run by auto
qed


text \<open>
  Claim C4, as the code has it. Let \<open>RunGC\<close> return without an error, let the master
  keys be listed with distinct keys (a Go map), and let the iteration for \<open>(key, v)\<close>
  (reached in the state \<open>s2\<close>, after the keys \<open>before\<close> it) find the ID of the
  key in range, acquire the lock, and list no slave key that satisfies
  \<open>prefixMatchesKey\<close>. If the previous round's map does not hold the key, the returned
  map holds it with the \<open>ModRevision\<close> of the listing. If the previous round's map
  holds the key with another revision, the iteration only unlocks: the key is not
  deleted, and the returned map does not hold it.
\<close>

theorem RunGC_marks_first_seen_unused:
  assumes run: "RunGC k b rateLimit prev minID maxID s = (Inr (newStale, stats), sfin)"
      and list: "ListPrefix b (idPrefix k) s = (Inr allocated, s1)"
      and split: "allocated = before @ (key, v) # after"
      and dist: "distinct (map fst allocated)"
      and before: "RunGC_loop k b rateLimit prev minID maxID before (s1, Map.empty, 0) =
                     (None, s2, stale2, del2)"
      and range: "ParseUint (last (strings_Split key (CHR ''/''))) = Some identityID"
                 "minID \<le> identityID" "identityID \<le> maxID"
      and lock: "lockPath k b key s2 = (Inr lock, s3)"
      and slaves: "ListPrefixIfLocked b (path_Join [valuePrefix k, Data v]) lock s3 = (Inr pairs, s4)"
      and nousers: "\<forall>p \<in> set pairs. \<not> prefixMatchesKey (path_Join [valuePrefix k, Data v]) (fst p)"
  shows "(prev key = None \<longrightarrow> newStale key = Some (ModRevision v)) \<and>
         (\<forall>modRev. prev key = Some modRev \<and> modRev \<noteq> ModRevision v \<longrightarrow>
            newStale key = None \<and>
            RunGC_body k b rateLimit prev minID maxID (key, v) (s2, stale2, del2) =
              (None, Unlock b lock s4, stale2, del2))"
proof -
  from run list obtain del where whole:
    "RunGC_loop k b rateLimit prev minID maxID allocated (s1, Map.empty, 0) =
       (None, sfin, newStale, del)"
    by (auto simp: RunGC_def Let_def split: prod.splits option.splits)
  from dist split have notin: "key \<notin> fst ` set before" "key \<notin> fst ` set after"
    by auto
  have stale2: "stale2 key = None"
    using RunGC_loop_stale_other [OF before, of key] notin(1) by force
  from whole before have rest:
    "RunGC_loop k b rateLimit prev minID maxID ((key, v) # after) (s2, stale2, del2) =
       (None, sfin, newStale, del)"
    by (simp add: split RunGC_loop_append)
  show ?thesis
  proof (intro conjI allI impI)
    assume none: "prev key = None"
    note body = RunGC_body_first_seen [where prev = prev and key = key
        and rateLimit = rateLimit and stale = stale2 and del = del2,
        OF range lock slaves nousers none]
    from rest have "RunGC_loop k b rateLimit prev minID maxID after
        (Unlock b lock s4, stale2(key \<mapsto> ModRevision v), del2) = (None, sfin, newStale, del)"
      by (simp add: body)
    from RunGC_loop_stale_other [OF this, of key] notin(2)
    show "newStale key = Some (ModRevision v)" by force
  next
    fix modRev
    assume changed: "prev key = Some modRev \<and> modRev \<noteq> ModRevision v"
    then have body: "RunGC_body k b rateLimit prev minID maxID (key, v) (s2, stale2, del2) =
              (None, Unlock b lock s4, stale2, del2)"
      using RunGC_body_changed [where prev = prev and key = key and modRev = modRev,
          OF range lock slaves nousers] by blast
    then show "RunGC_body k b rateLimit prev minID maxID (key, v) (s2, stale2, del2) =
              (None, Unlock b lock s4, stale2, del2)" .
    from rest have "RunGC_loop k b rateLimit prev minID maxID after
        (Unlock b lock s4, stale2, del2) = (None, sfin, newStale, del)"
      by (simp add: body)
    from RunGC_loop_stale_other [OF this, of key] notin(2) stale2
    show "newStale key = None" by force
  qed
qed

lemma example_first_iteration:
  "ListPrefix memBackend (idPrefix exampleBackend) exampleStore =
     (Inr (take 3 (entries exampleStore)), exampleStore)"
  "take 3 (entries exampleStore) =
     [] @ (''base/id/300'', \<lparr> Data = ''k1'', ModRevision = 7, LeaseID = 0 \<rparr>) #
       drop 1 (take 3 (entries exampleStore))"
  "distinct (map fst (take 3 (entries exampleStore)))"
  "ParseUint (last (strings_Split ''base/id/300'' (CHR ''/''))) = Some 300"
  "lockPath exampleBackend memBackend ''base/id/300'' exampleStore =
     (Inr ''base/locks/id/300'', exampleStore)"
  "ListPrefixIfLocked memBackend
     (path_Join [valuePrefix exampleBackend,
                 Data \<lparr> Data = ''k1'', ModRevision = 7, LeaseID = 0 \<rparr>])
     ''base/locks/id/300'' exampleStore = (Inr [], exampleStore)"
  unfolding exampleBackend_def exampleStore_def by code_simp+

theorem RunGC_marks_first_seen_unused_witness:
  "(\<exists>newStale stats sfin.
      RunGC exampleBackend memBackend memWait Map.empty 256 65535 exampleStore =
        (Inr (newStale, stats), sfin) \<and>
      newStale ''base/id/300'' = Some 7) \<and>
   (\<exists>newStale stats sfin.
      RunGC exampleBackend memBackend memWait exampleChangedPrev 256 65535 exampleStore =
        (Inr (newStale, stats), sfin) \<and>
      exampleChangedPrev ''base/id/300'' = Some 5 \<and>
      newStale ''base/id/300'' = None)"
proof -
  let ?v = "\<lparr> Data = ''k1'', ModRevision = 7, LeaseID = 0 \<rparr>"
  have before: "\<And>prev. RunGC_loop exampleBackend memBackend memWait prev 256 65535 []
      (exampleStore, Map.empty, 0) = (None, exampleStore, Map.empty, 0)"
    by simp
  have range: "(256 :: ID) \<le> 300" "(300 :: ID) \<le> 65535"
    by simp_all
  have nousers: "\<forall>p \<in> set ([] :: KeyValuePairs).
      \<not> prefixMatchesKey (path_Join [valuePrefix exampleBackend, Data ?v]) (fst p)"
    by simp
  have "\<not> isl (fst (RunGC exampleBackend memBackend memWait Map.empty 256 65535 exampleStore))"
    unfolding exampleBackend_def exampleStore_def by code_simp
  then obtain newStale1 stats1 sfin1 where run1:
    "RunGC exampleBackend memBackend memWait Map.empty 256 65535 exampleStore =
       (Inr (newStale1, stats1), sfin1)"
    by (cases "RunGC exampleBackend memBackend memWait Map.empty 256 65535 exampleStore";
        cases "fst (RunGC exampleBackend memBackend memWait Map.empty 256 65535 exampleStore)")
       auto
  have "\<not> isl (fst (RunGC exampleBackend memBackend memWait exampleChangedPrev 256 65535
                      exampleStore))"
    unfolding exampleBackend_def exampleStore_def exampleChangedPrev_def by code_simp
  then obtain newStale2 stats2 sfin2 where run2:
    "RunGC exampleBackend memBackend memWait exampleChangedPrev 256 65535 exampleStore =
       (Inr (newStale2, stats2), sfin2)"
    by (cases "RunGC exampleBackend memBackend memWait exampleChangedPrev 256 65535 exampleStore";
        cases "fst (RunGC exampleBackend memBackend memWait exampleChangedPrev 256 65535
                      exampleStore)")
       auto
  have c: "exampleChangedPrev ''base/id/300'' = Some 5" "(5 :: 64 word) \<noteq> ModRevision ?v"
    by (simp_all add: exampleChangedPrev_def)
  from RunGC_marks_first_seen_unused [OF run1 example_first_iteration(1,2,3) before
      example_first_iteration(4) range example_first_iteration(5,6) nousers]
  have one: "newStale1 ''base/id/300'' = Some 7"
    by simp
  from RunGC_marks_first_seen_unused [OF run2 example_first_iteration(1,2,3) before
      example_first_iteration(4) range example_first_iteration(5,6) nousers] c
  have two: "newStale2 ''base/id/300'' = None"
    by blast
  from run1 one run2 two c(1) show ?thesis by blast
qed


text \<open>
  Claim C4 as stated fails. The master key of identity 300 is in range, the locked
  listing of its slave keys is empty, nothing is deleted, and the previous round
  recorded the key at revision 5 while it is now at revision 7: the map that \<open>RunGC\<close>
  returns does not hold the key.
\<close>

theorem RunGC_changed_revision_counterexample:
  "snd (snd (RunGC exampleBackend (logged memBackend) (loggedWait memWait) exampleChangedPrev
               256 65535 (exampleStore, []))) =
     [CallListPrefix ''base/id'' (Inr (take 3 (entries exampleStore))),
      CallLockPath ''base/locks/id/300'' (Inr ''base/locks/id/300''),
      CallListPrefixIfLocked ''base/value/k1'' ''base/locks/id/300'' (Inr []),
      CallUnlock ''base/locks/id/300'',
      CallLockPath ''base/locks/id/301'' (Inr ''base/locks/id/301''),
      CallListPrefixIfLocked ''base/value/k2'' ''base/locks/id/301''
        (Inr (take 3 (drop 3 (entries exampleStore)))),
      CallUnlock ''base/locks/id/301''] \<and>
   \<not> isl (fst (RunGC exampleBackend memBackend memWait exampleChangedPrev 256 65535
                  exampleStore)) \<and>
   fst (projr (fst (RunGC exampleBackend memBackend memWait exampleChangedPrev 256 65535
                      exampleStore))) ''base/id/300'' = None"
  unfolding exampleBackend_def exampleStore_def exampleChangedPrev_def
  by (intro conjI; code_simp)


subsection \<open>The watcher\<close>






end
